(* ===== verification/Prelude.thy ===== *)
theory Prelude
  imports Main "HOL-Library.Word" "HOL-Library.Signed_Division"
begin

text \<open>
  Shared vocabulary of the development: the C integer types as words or as integers with
  the wrap-around written out, byte buffers with the \<open>memcpy\<close> that all programs use, and
  the collections of simplification rules the components contribute to.

  The target is the LP64 GNU/Linux platform the programs are built for by the Makefile:
  \<open>int\<close> has 32 bits, \<open>long\<close>, \<open>time_t\<close>, \<open>off64_t\<close> and \<open>size_t\<close> have 64 bits, plain
  \<open>char\<close> is signed, the host is little endian. Signed arithmetic is modelled with the
  two's complement result that the machine computes: \<open>s32\<close> and \<open>s64\<close> are the conversions
  to \<open>int\<close> and \<open>long\<close>.
\<close>

unbundle bit_operations_syntax

section \<open>Machine integers\<close>

type_synonym byte = "8 word"
type_synonym u16 = "16 word"
type_synonym u32 = "32 word"
type_synonym u64 = "64 word"

named_theorems width_simps \<open>conversions that are the identity on values in range\<close>
named_theorems codec_simps \<open>decoding an encoded field returns the field\<close>
named_theorems buffer_simps \<open>length and slices of updated buffers\<close>

definition s32 :: "int \<Rightarrow> int" where
  "s32 x = signed_take_bit 31 x"

definition s64 :: "int \<Rightarrow> int" where
  "s64 x = signed_take_bit 63 x"

definition in_s32 :: "int \<Rightarrow> bool" where
  "in_s32 x \<longleftrightarrow> - (2 ^ 31) \<le> x \<and> x < 2 ^ 31"

definition in_s64 :: "int \<Rightarrow> bool" where
  "in_s64 x \<longleftrightarrow> - (2 ^ 63) \<le> x \<and> x < 2 ^ 63"

lemma s32_id [width_simps]: "in_s32 x \<Longrightarrow> s32 x = x"
  by (simp add: s32_def in_s32_def signed_take_bit_int_eq_self_iff)

lemma s64_id [width_simps]: "in_s64 x \<Longrightarrow> s64 x = x"
  by (simp add: s64_def in_s64_def signed_take_bit_int_eq_self_iff)

lemma s32_range: "in_s32 (s32 x)"
  using signed_take_bit_int_greater_eq_minus_exp [of 31 x] signed_take_bit_int_less_exp [of 31 x]
  by (simp add: s32_def in_s32_def)

lemma s64_range: "in_s64 (s64 x)"
  using signed_take_bit_int_greater_eq_minus_exp [of 63 x] signed_take_bit_int_less_exp [of 63 x]
  by (simp add: s64_def in_s64_def)

lemma in_s32_I [intro]: "- 2147483648 \<le> x \<Longrightarrow> x < 2147483648 \<Longrightarrow> in_s32 x"
  by (simp add: in_s32_def)

lemma in_s64_I [intro]:
  "- 9223372036854775808 \<le> x \<Longrightarrow> x < 9223372036854775808 \<Longrightarrow> in_s64 x"
  by (simp add: in_s64_def)

lemma s32_wrap:
  assumes "2 ^ 31 \<le> x" "x < 2 ^ 32 + 2 ^ 31"
  shows "s32 x = x - 2 ^ 32"
proof -
  have "s32 x = s32 (x - 2 ^ 32)"
    unfolding s32_def signed_take_bit_eq_iff_take_bit_eq by (simp add: take_bit_eq_mod)
  also have "\<dots> = x - 2 ^ 32"
    using assms by (intro s32_id) (simp add: in_s32_def)
  finally show ?thesis .
qed

lemma in_s32_s64: "in_s32 x \<Longrightarrow> in_s64 x"
  by (simp add: in_s32_def in_s64_def)

lemma in_s64_of_u32 [simp]: "in_s64 (uint (w :: u32))"
proof -
  have "0 \<le> uint w" "uint w < 4294967296"
    using uint_lt2p [of w] by simp_all
  then show ?thesis by (intro in_s64_I) linarith+
qed

text \<open>C division and remainder truncate towards zero; a zero divisor traps.\<close>

lemma sdiv_nonneg: "0 \<le> (a :: int) \<Longrightarrow> 0 < b \<Longrightarrow> a sdiv b = a div b"
  by (cases "a = 0") (simp_all add: signed_divide_int_def)

lemma smod_nonneg: "0 \<le> (a :: int) \<Longrightarrow> 0 < b \<Longrightarrow> a smod b = a mod b"
  by (cases "a = 0") (simp_all add: signed_modulo_int_def)

section \<open>Buffers\<close>

text \<open>
  \<open>put off src dst\<close> is \<open>memcpy(dst + off, src, sizeof src)\<close> and \<open>bytes_at off n buf\<close> are the
  \<open>n\<close> bytes at \<open>buf + off\<close>.
\<close>

definition put :: "nat \<Rightarrow> 'a list \<Rightarrow> 'a list \<Rightarrow> 'a list" where
  "put off src dst = take off dst @ src @ drop (off + length src) dst"

definition bytes_at :: "nat \<Rightarrow> nat \<Rightarrow> 'a list \<Rightarrow> 'a list" where
  "bytes_at off n xs = take n (drop off xs)"

lemma length_put [buffer_simps]:
  "off + length src \<le> length dst \<Longrightarrow> length (put off src dst) = length dst"
  by (simp add: put_def)

lemma length_bytes_at [buffer_simps]: "off + n \<le> length xs \<Longrightarrow> length (bytes_at off n xs) = n"
  by (simp add: bytes_at_def)

lemma at_put_same [buffer_simps]:
  "off \<le> length dst \<Longrightarrow> n = length src \<Longrightarrow> bytes_at off n (put off src dst) = src"
  by (simp add: bytes_at_def put_def)

lemma at_put_before [buffer_simps]:
  "i + n \<le> off \<Longrightarrow> off \<le> length dst \<Longrightarrow> bytes_at i n (put off src dst) = bytes_at i n dst"
  by (auto simp: bytes_at_def put_def drop_take min_def)

lemma at_put_after [buffer_simps]:
  "off + length src \<le> i \<Longrightarrow> off \<le> length dst \<Longrightarrow> bytes_at i n (put off src dst) = bytes_at i n dst"
  by (simp add: bytes_at_def put_def)

lemma bytes_at_append1: "off + n \<le> length xs \<Longrightarrow> bytes_at off n (xs @ ys) = bytes_at off n xs"
  by (simp add: bytes_at_def)

lemma bytes_at_append2: "off = length xs + k \<Longrightarrow> bytes_at off n (xs @ ys) = bytes_at k n ys"
  by (simp add: bytes_at_def)

lemma drop_put [buffer_simps]:
  "off + length src \<le> k \<Longrightarrow> off \<le> length dst \<Longrightarrow> drop k (put off src dst) = drop k dst"
  by (simp add: put_def)

lemma bytes_at_take [buffer_simps]: "off + n \<le> k \<Longrightarrow> bytes_at off n (take k xs) = bytes_at off n xs"
  by (simp add: bytes_at_def drop_take min_def)

lemma bytes_at_0_take [buffer_simps]: "bytes_at 0 n xs = take n xs"
  by (simp add: bytes_at_def)

lemma put_put_append [buffer_simps]:
  "off + length a + length b \<le> length dst \<Longrightarrow> o2 = off + length a \<Longrightarrow>
     put o2 b (put off a dst) = put off (a @ b) dst"
  by (simp add: put_def ac_simps)

lemma take_put_put:
  assumes "length h = k" "k + length d \<le> length z" "n = k + length d"
  shows "take n (put 0 h (put k d z)) = h @ d"
  using assms by (simp add: put_def)

lemma take_length_put0: "n = length d \<Longrightarrow> take n (put 0 d z) = d"
  by (simp add: put_def)

lemma at_put0_inside [buffer_simps]:
  "off + n \<le> length src \<Longrightarrow> bytes_at off n (put 0 src dst) = bytes_at off n src"
  by (simp add: bytes_at_def put_def)

lemma nth_put0 [buffer_simps]: "i < length src \<Longrightarrow> put 0 src dst ! i = src ! i"
  by (simp add: put_def nth_append)

lemma nth_bytes_at: "off \<le> length xs \<Longrightarrow> k < n \<Longrightarrow> bytes_at off n xs ! k = xs ! (off + k)"
  by (simp add: bytes_at_def)

end
