(* ===== verification/Bytes.thy ===== *)
theory Bytes
  imports Prelude
begin

text \<open>
  Byte order. \<open>htonl\<close> followed by \<open>memcpy\<close> stores a 32-bit value most significant byte
  first on every host (\<open>be32\<close>); a plain \<open>memcpy\<close> of a \<open>uint32_t\<close> stores it least
  significant byte first on the little endian target (\<open>le32\<close>). The locales state what a
  fixed-width field promises to the packet builders and parsers, and are interpreted on
  both encodings.
\<close>

section \<open>Fixed-width fields\<close>

locale field_codec =
  fixes enc :: "'a \<Rightarrow> byte list"
    and dec :: "byte list \<Rightarrow> 'a"
    and width :: nat
  assumes enc_length: "length (enc x) = width"
    and dec_enc: "dec (enc x) = x"
begin

lemma read_written:
  "off \<le> length buf \<Longrightarrow> dec (bytes_at off width (put off (enc x) buf)) = x"
  by (simp add: at_put_same enc_length dec_enc)

lemma enc_inject: "enc x = enc y \<longleftrightarrow> x = y"
  by (metis dec_enc)

end

locale exact_codec = field_codec +
  assumes enc_dec: "length bs = width \<Longrightarrow> enc (dec bs) = bs"
begin

lemma dec_inject:
  "length xs = width \<Longrightarrow> length ys = width \<Longrightarrow> dec xs = dec ys \<longleftrightarrow> xs = ys"
  by (metis enc_dec)

lemma enc_surj: "length bs = width \<Longrightarrow> \<exists>x. bs = enc x"
  by (metis enc_dec)

end

section \<open>Network and host byte order\<close>

definition be32 :: "u32 \<Rightarrow> byte list" where
  "be32 w = [ucast (drop_bit 24 w), ucast (drop_bit 16 w), ucast (drop_bit 8 w), ucast w]"

definition of_be32 :: "byte list \<Rightarrow> u32" where
  "of_be32 bs = push_bit 24 (ucast (bs ! 0)) OR push_bit 16 (ucast (bs ! 1))
     OR push_bit 8 (ucast (bs ! 2)) OR ucast (bs ! 3)"

definition le32 :: "u32 \<Rightarrow> byte list" where
  "le32 w = rev (be32 w)"

definition of_le32 :: "byte list \<Rightarrow> u32" where
  "of_le32 bs = of_be32 (rev bs)"

lemma of_be32_be32: "of_be32 (be32 w) = w"
proof (rule bit_word_eqI)
  fix n :: nat
  assume "n < LENGTH(32)"
  then consider "n < 8" | "8 \<le> n \<and> n < 16" | "16 \<le> n \<and> n < 24" | "24 \<le> n \<and> n < 32"
    by fastforce
  then show "bit (of_be32 (be32 w)) n = bit w n"
    by cases (auto simp: be32_def of_be32_def bit_simps)
qed

lemma byte_bit_high [simp]: "8 \<le> n \<Longrightarrow> \<not> bit (b :: byte) n"
  by (auto dest: bit_imp_le_length)

lemma be32_of_be32_list: "be32 (of_be32 [a, b, c, d]) = [a, b, c, d]"
  by (auto simp: be32_def of_be32_def bit_simps intro!: bit_word_eqI)

lemma length_4_conv: "length bs = 4 \<Longrightarrow> \<exists>a b c d. bs = [a, b, c, d]"
  by (auto simp: numeral_eq_Suc length_Suc_conv)

lemma be32_of_be32: "length bs = 4 \<Longrightarrow> be32 (of_be32 bs) = bs"
  using length_4_conv [of bs] be32_of_be32_list by auto

lemma length_be32 [simp]: "length (be32 w) = 4"
  by (simp add: be32_def)

lemma length_le32 [simp]: "length (le32 w) = 4"
  by (simp add: le32_def)

text \<open>A 16-bit port number in network byte order.\<close>

definition be16 :: "u16 \<Rightarrow> byte list" where
  "be16 w = [ucast (drop_bit 8 w), ucast w]"

definition of_be16 :: "byte list \<Rightarrow> u16" where
  "of_be16 bs = push_bit 8 (ucast (bs ! 0)) OR ucast (bs ! 1)"

lemma length_be16 [simp]: "length (be16 w) = 2"
  by (simp add: be16_def)

lemma of_be16_be16: "of_be16 (be16 w) = w"
proof (rule bit_word_eqI)
  fix n :: nat
  assume "n < LENGTH(16)"
  then consider "n < 8" | "8 \<le> n \<and> n < 16"
    by fastforce
  then show "bit (of_be16 (be16 w)) n = bit w n"
    by cases (auto simp: be16_def of_be16_def bit_simps)
qed

lemma be16_of_be16_list: "be16 (of_be16 [a, b]) = [a, b]"
  by (auto simp: be16_def of_be16_def bit_simps intro!: bit_word_eqI)

lemma length_2_conv: "length bs = 2 \<Longrightarrow> \<exists>a b. bs = [a, b]"
  by (auto simp: numeral_eq_Suc length_Suc_conv)

lemma be16_of_be16: "length bs = 2 \<Longrightarrow> be16 (of_be16 bs) = bs"
  using length_2_conv [of bs] be16_of_be16_list by auto

interpretation net16: exact_codec be16 of_be16 2
  by unfold_locales (simp_all add: of_be16_be16 be16_of_be16)

interpretation net32: exact_codec be32 of_be32 4
  by unfold_locales (simp_all add: of_be32_be32 be32_of_be32)

interpretation host32: exact_codec le32 of_le32 4
  by unfold_locales (simp_all add: le32_def of_le32_def of_be32_be32 be32_of_be32)

declare net16.dec_enc [codec_simps] net32.dec_enc [codec_simps] host32.dec_enc [codec_simps]

end
