(* ===== verification/Timespec.thy ===== *)
theory Timespec
  imports Prelude
begin

text \<open>
  \<open>timing_mach.h\<close> and \<open>timing_mach.c\<close>: arithmetic on \<open>struct timespec\<close>, the POSIX clock
  emulation for old Mach kernels and the periodic timer, and the two timespec helpers of
  \<open>udp_ts_seq_reply.cpp\<close>. Both fields are signed 64-bit; every sum is converted back to
  64 bits. \<open>nanos\<close> is the abstraction: the instant in nanoseconds as an integer.

  The clock and sleep system calls are arguments: their return value and the time they
  store. The conversions to and from \<open>double\<close> are not modelled.
\<close>

section \<open>The structure and its abstraction\<close>

record timespec =
  tv_sec :: int
  tv_nsec :: int

definition TIMING_GIGA :: int where
  "TIMING_GIGA = 1000000000"

definition nanos :: "timespec \<Rightarrow> int" where
  "nanos t = tv_sec t * TIMING_GIGA + tv_nsec t"

definition ts_norm :: "timespec \<Rightarrow> bool" where
  "ts_norm t \<longleftrightarrow> 0 \<le> tv_nsec t \<and> tv_nsec t < TIMING_GIGA"

definition ts_zero :: timespec where
  "ts_zero = \<lparr>tv_sec = 0, tv_nsec = 0\<rparr>"

definition ts_fits :: "timespec \<Rightarrow> bool" where
  "ts_fits t \<longleftrightarrow> in_s64 (tv_sec t) \<and> in_s64 (tv_nsec t)"

section \<open>\<open>timing_mach.h\<close>\<close>

definition timespec_monodiff_lmr :: "timespec \<Rightarrow> timespec \<Rightarrow> timespec" where
  "timespec_monodiff_lmr ts_out ts_in =
     (let s = s64 (tv_sec ts_out - tv_sec ts_in);
          n = s64 (tv_nsec ts_out - tv_nsec ts_in)
      in if s < 0 then \<lparr>tv_sec = 0, tv_nsec = 0\<rparr>
         else if n < 0 then
           (if s = 0 then \<lparr>tv_sec = 0, tv_nsec = 0\<rparr>
            else \<lparr>tv_sec = s64 (s - 1), tv_nsec = s64 (n + TIMING_GIGA)\<rparr>)
         else \<lparr>tv_sec = s, tv_nsec = n\<rparr>)"

definition timespec_monodiff_rml :: "timespec \<Rightarrow> timespec \<Rightarrow> timespec" where
  "timespec_monodiff_rml ts_out ts_in =
     (let s = s64 (tv_sec ts_in - tv_sec ts_out);
          n = s64 (tv_nsec ts_in - tv_nsec ts_out)
      in if s < 0 then \<lparr>tv_sec = 0, tv_nsec = 0\<rparr>
         else if n < 0 then
           (if s = 0 then \<lparr>tv_sec = 0, tv_nsec = 0\<rparr>
            else \<lparr>tv_sec = s64 (s - 1), tv_nsec = s64 (n + TIMING_GIGA)\<rparr>)
         else \<lparr>tv_sec = s, tv_nsec = n\<rparr>)"

definition timespec_monoadd :: "timespec \<Rightarrow> timespec \<Rightarrow> timespec" where
  "timespec_monoadd ts_out ts_in =
     (let s = s64 (tv_sec ts_out + tv_sec ts_in);
          n = s64 (tv_nsec ts_out + tv_nsec ts_in)
      in if n \<ge> TIMING_GIGA then \<lparr>tv_sec = s64 (s + 1), tv_nsec = s64 (n - TIMING_GIGA)\<rparr>
         else \<lparr>tv_sec = s, tv_nsec = n\<rparr>)"

text \<open>
  The Mach emulation of an absolute sleep: read the clock (its return value and the time),
  then sleep for the difference with \<open>nanosleep\<close>. The result is the return value and the
  interval that was slept, if the sleep was reached.
\<close>

definition clock_nanosleep_abstime ::
    "int \<times> timespec \<Rightarrow> (timespec \<Rightarrow> int) \<Rightarrow> timespec \<Rightarrow> int \<times> timespec option" where
  "clock_nanosleep_abstime clock nanosleep req =
     (let (retval, ts_delta) = clock
      in if retval = 0 then
           (let d = timespec_monodiff_rml ts_delta req in (nanosleep d, Some d))
         else (retval, None))"

section \<open>\<open>timing_mach.c\<close>\<close>

text \<open>The emulated POSIX clock calls. The Mach calls are arguments: return value and data.\<close>

datatype clockid = CLOCK_REALTIME | CLOCK_MONOTONIC | Other_clock int

definition clock_gettime ::
    "int \<times> timespec \<Rightarrow> int \<times> timespec \<Rightarrow> clockid \<Rightarrow> timespec \<Rightarrow> int \<times> timespec" where
  "clock_gettime cclock_time clock_port_time cid tspec =
     (case cid of
        CLOCK_REALTIME \<Rightarrow>
          (let (retval, mts) = cclock_time
           in (retval, if retval = 0 then \<lparr>tv_sec = tv_sec mts, tv_nsec = tv_nsec mts\<rparr> else tspec))
      | CLOCK_MONOTONIC \<Rightarrow>
          (let (retval, mts) = clock_port_time
           in (retval, if retval = 0 then \<lparr>tv_sec = tv_sec mts, tv_nsec = tv_nsec mts\<rparr> else tspec))
      | Other_clock _ \<Rightarrow> (- 1, tspec))"

record 'serv timing_mach =
  numer :: u32
  denom :: u32
  cclock :: 'serv
  call_count :: int

text \<open>\<open>clock_getres\<close> divides by the timebase denominator: \<open>None\<close> is the division trap.\<close>

definition clock_getres :: "'serv timing_mach \<Rightarrow> clockid \<Rightarrow> (int \<times> timespec) option" where
  "clock_getres g cid =
     (if denom g = 0 then None
      else Some (0, \<lparr>tv_sec = 0, tv_nsec = uint (numer g div denom g)\<rparr>))"

definition timing_mach_init ::
    "int \<times> u32 \<times> u32 \<Rightarrow> int \<times> 'serv \<Rightarrow> 'serv timing_mach \<Rightarrow> int \<times> 'serv timing_mach" where
  "timing_mach_init timebase service g =
     (let g1 = g\<lparr>call_count := s32 (call_count g + 1)\<rparr>
      in if call_count g1 = 1 then
           (let (retval, n, d) = timebase; g2 = g1\<lparr>numer := n, denom := d\<rparr>
            in if retval = 0 then
                 (let (retval2, srv) = service in (retval2, g2\<lparr>cclock := srv\<rparr>))
               else (retval, g2))
         else (- 2, g1\<lparr>call_count := 1\<rparr>))"

definition itimer_start :: "int \<times> timespec \<Rightarrow> timespec \<Rightarrow> int \<times> timespec" where
  "itimer_start clock ts_step =
     (let (retval, ts_target) = clock
      in (retval, if retval = 0 then timespec_monoadd ts_target ts_step else ts_target))"

definition itimer_step :: "(timespec \<Rightarrow> int) \<Rightarrow> timespec \<Rightarrow> timespec \<Rightarrow> int \<times> timespec" where
  "itimer_step sleep_abstime ts_target ts_step =
     (let retval = sleep_abstime ts_target
      in (retval, if retval = 0 then timespec_monoadd ts_target ts_step else ts_target))"

section \<open>Helpers of \<open>udp_ts_seq_reply.cpp\<close>\<close>

definition timespec_diff :: "timespec \<Rightarrow> timespec \<Rightarrow> timespec" where
  "timespec_diff start stop =
     (if s64 (tv_nsec stop - tv_nsec start) < 0 then
        \<lparr>tv_sec = s64 (s64 (tv_sec stop - tv_sec start) - 1),
         tv_nsec = s64 (s64 (tv_nsec stop - tv_nsec start) + 1000000000)\<rparr>
      else
        \<lparr>tv_sec = s64 (tv_sec stop - tv_sec start),
         tv_nsec = s64 (tv_nsec stop - tv_nsec start)\<rparr>)"

definition timespec_milli :: "timespec \<Rightarrow> int" where
  "timespec_milli q = s64 (s64 (1000 * tv_sec q) + tv_nsec q sdiv 1000 sdiv 1000)"

section \<open>Order\<close>

text \<open>Time values are ordered by seconds, then by nanoseconds.\<close>

instantiation timespec_ext :: (linorder) linorder
begin

definition less_eq_timespec_ext :: "'a timespec_scheme \<Rightarrow> 'a timespec_scheme \<Rightarrow> bool" where
  "less_eq_timespec_ext a b \<longleftrightarrow>
     (tv_sec a, tv_nsec a) = (tv_sec b, tv_nsec b) \<and> timespec.more a \<le> timespec.more b \<or>
     tv_sec a = tv_sec b \<and> tv_nsec a < tv_nsec b \<or> tv_sec a < tv_sec b"

definition less_timespec_ext :: "'a timespec_scheme \<Rightarrow> 'a timespec_scheme \<Rightarrow> bool" where
  "less_timespec_ext a b \<longleftrightarrow> a \<le> b \<and> \<not> b \<le> a"

instance
  by intro_classes (auto simp: less_eq_timespec_ext_def less_timespec_ext_def)

end

lemma ts_le_iff_nanos:
  "ts_norm a \<Longrightarrow> ts_norm b \<Longrightarrow> a \<le> b \<longleftrightarrow> nanos a \<le> nanos b"
  by (cases a; cases b)
    (auto simp: less_eq_timespec_ext_def ts_norm_def nanos_def TIMING_GIGA_def)

section \<open>Arithmetic is exact on the represented instants\<close>

lemma nanos_zero [simp]: "nanos ts_zero = 0"
  by (simp add: nanos_def ts_zero_def)

lemma ts_norm_zero [simp]: "ts_norm ts_zero"
  by (simp add: ts_norm_def ts_zero_def TIMING_GIGA_def)

lemma ts_norm_in_s64: "ts_norm t \<Longrightarrow> in_s64 (tv_nsec t)"
  by (auto simp: ts_norm_def TIMING_GIGA_def)

lemma norm_nsec_sum: "ts_norm a \<Longrightarrow> ts_norm b \<Longrightarrow> s64 (tv_nsec a + tv_nsec b) = tv_nsec a + tv_nsec b"
  by (rule s64_id) (auto simp: ts_norm_def TIMING_GIGA_def)

lemma norm_nsec_diff: "ts_norm a \<Longrightarrow> ts_norm b \<Longrightarrow> s64 (tv_nsec a - tv_nsec b) = tv_nsec a - tv_nsec b"
  by (rule s64_id) (auto simp: ts_norm_def TIMING_GIGA_def)

lemma monoadd_exact:
  assumes "ts_norm a" "ts_norm b" "in_s64 (tv_sec a + tv_sec b)" "in_s64 (tv_sec a + tv_sec b + 1)"
  shows "nanos (timespec_monoadd a b) = nanos a + nanos b \<and> ts_norm (timespec_monoadd a b)"
proof -
  have "s64 (tv_nsec a + tv_nsec b - TIMING_GIGA) = tv_nsec a + tv_nsec b - TIMING_GIGA"
    using assms(1,2) by (intro s64_id) (auto simp: ts_norm_def TIMING_GIGA_def)
  then show ?thesis
    using assms norm_nsec_sum [OF assms(1,2)]
    by (auto simp: timespec_monoadd_def Let_def nanos_def ts_norm_def width_simps algebra_simps)
qed

lemma monodiff_rml_lmr: "timespec_monodiff_rml a b = timespec_monodiff_lmr b a"
  by (simp add: timespec_monodiff_rml_def timespec_monodiff_lmr_def)

lemma monodiff_lmr_exact:
  assumes "ts_norm a" "ts_norm b" "in_s64 (tv_sec a - tv_sec b)"
  shows "nanos (timespec_monodiff_lmr a b) = max 0 (nanos a - nanos b) \<and>
    ts_norm (timespec_monodiff_lmr a b)"
proof -
  let ?s = "tv_sec a - tv_sec b" and ?n = "tv_nsec a - tv_nsec b"
  have n: "- TIMING_GIGA < ?n" "?n < TIMING_GIGA"
    using assms(1,2) by (auto simp: ts_norm_def)
  have "s64 ?s = ?s" "s64 ?n = ?n" "0 < ?s \<Longrightarrow> s64 (?s - 1) = ?s - 1"
      "s64 (?n + TIMING_GIGA) = ?n + TIMING_GIGA"
    using assms n by (auto intro!: s64_id simp: ts_norm_def TIMING_GIGA_def in_s64_def)
  moreover have "nanos a - nanos b = ?s * TIMING_GIGA + ?n"
    by (simp add: nanos_def algebra_simps)
  ultimately show ?thesis
    using n by (auto simp: timespec_monodiff_lmr_def Let_def ts_norm_def nanos_def
        TIMING_GIGA_def max_def)
qed

lemma timespec_diff_exact:
  assumes "ts_norm a" "ts_norm b" "in_s64 (tv_sec b - tv_sec a)" "in_s64 (tv_sec b - tv_sec a - 1)"
  shows "nanos (timespec_diff a b) = nanos b - nanos a \<and> ts_norm (timespec_diff a b)"
proof -
  have "s64 (tv_nsec b - tv_nsec a) = tv_nsec b - tv_nsec a"
      "s64 (tv_nsec b - tv_nsec a + 1000000000) = tv_nsec b - tv_nsec a + 1000000000"
    using assms(1,2) by (auto intro!: s64_id simp: ts_norm_def TIMING_GIGA_def)
  then show ?thesis
    using assms
    by (auto simp: timespec_diff_def nanos_def ts_norm_def TIMING_GIGA_def width_simps)
qed

lemma timespec_milli_floor:
  assumes "ts_norm q" "- 9000000000000000 \<le> tv_sec q" "tv_sec q \<le> 9000000000000000"
  shows "timespec_milli q = nanos q div 1000000"
proof -
  have n: "0 \<le> tv_nsec q" "tv_nsec q < 1000000000"
    using assms(1) by (auto simp: ts_norm_def TIMING_GIGA_def)
  then have "tv_nsec q sdiv 1000 sdiv 1000 = tv_nsec q div 1000 div 1000"
    by (simp add: sdiv_nonneg)
  also have "\<dots> = tv_nsec q div 1000000"
    by (simp flip: zdiv_zmult2_eq)
  finally have sd: "tv_nsec q sdiv 1000 sdiv 1000 = tv_nsec q div 1000000" .
  have "s64 (1000 * tv_sec q) = 1000 * tv_sec q"
      "s64 (1000 * tv_sec q + tv_nsec q div 1000000) = 1000 * tv_sec q + tv_nsec q div 1000000"
    using assms(2,3) n by (auto intro!: s64_id in_s64_I)
  moreover have "nanos q div 1000000 = 1000 * tv_sec q + tv_nsec q div 1000000"
    by (simp add: nanos_def TIMING_GIGA_def)
  ultimately show ?thesis by (simp add: timespec_milli_def sd)
qed

section \<open>Tickers\<close>

text \<open>
  A periodic loop keeps an absolute target and moves it along by a fixed period. \<open>ok k t\<close>
  says that \<open>t\<close> is well formed and has room for \<open>k\<close> more ticks.
\<close>

locale ticker =
  fixes advance :: "timespec \<Rightarrow> timespec"
    and ok :: "nat \<Rightarrow> timespec \<Rightarrow> bool"
    and period :: int
  assumes advance_nanos: "ok (Suc k) t \<Longrightarrow> nanos (advance t) = nanos t + period"
    and advance_ok: "ok (Suc k) t \<Longrightarrow> ok k (advance t)"
begin

lemma no_drift: "ok (n + k) t \<Longrightarrow>
    nanos ((advance ^^ n) t) = nanos t + int n * period \<and> ok k ((advance ^^ n) t)"
proof (induction n arbitrary: k)
  case 0
  then show ?case by simp
next
  case (Suc n)
  from Suc.IH [of "Suc k"] Suc.prems have "ok (Suc k) ((advance ^^ n) t)"
      "nanos ((advance ^^ n) t) = nanos t + int n * period"
    by simp_all
  then show ?case by (simp add: advance_nanos advance_ok algebra_simps)
qed

end

definition itimer_room :: "timespec \<Rightarrow> nat \<Rightarrow> timespec \<Rightarrow> bool" where
  "itimer_room step k t \<longleftrightarrow> ts_norm step \<and> 0 \<le> tv_sec step \<and> ts_norm t \<and> - (2 ^ 63) \<le> tv_sec t \<and>
     tv_sec t + int k * (tv_sec step + 1) < 2 ^ 63"

lemma itimer_room_Suc:
  assumes "itimer_room step (Suc k) t"
  shows "nanos (timespec_monoadd t step) = nanos t + nanos step \<and>
    itimer_room step k (timespec_monoadd t step)"
proof -
  let ?s = "tv_sec t + tv_sec step"
  have "0 \<le> int k * (tv_sec step + 1)"
    using assms by (auto simp: itimer_room_def)
  moreover have "tv_sec t + int (Suc k) * (tv_sec step + 1) = ?s + 1 + int k * (tv_sec step + 1)"
    by (simp add: algebra_simps)
  ultimately have b: "- (2 ^ 63) \<le> ?s" "?s + 1 + int k * (tv_sec step + 1) < 2 ^ 63" "?s + 1 < 2 ^ 63"
    using assms unfolding itimer_room_def by linarith+
  then have "in_s64 ?s" "in_s64 (?s + 1)"
    by (simp_all add: in_s64_def)
  then have e: "nanos (timespec_monoadd t step) = nanos t + nanos step"
      "ts_norm (timespec_monoadd t step)"
    using monoadd_exact assms by (auto simp: itimer_room_def)
  have "tv_sec (timespec_monoadd t step) = ?s \<or> tv_sec (timespec_monoadd t step) = ?s + 1"
    using \<open>in_s64 ?s\<close> \<open>in_s64 (?s + 1)\<close> by (auto simp: timespec_monoadd_def Let_def width_simps)
  then show ?thesis
    using e b assms unfolding itimer_room_def by auto
qed

interpretation itimer: ticker "\<lambda>t. timespec_monoadd t step" "itimer_room step" "nanos step" for step
  by unfold_locales (simp_all add: itimer_room_Suc)

text \<open>The loop of a client: one start, then a step per list entry (the return of its sleep).\<close>

fun itimer_run :: "timespec \<Rightarrow> timespec \<Rightarrow> int list \<Rightarrow> timespec" where
  "itimer_run ts_target ts_step [] = ts_target"
| "itimer_run ts_target ts_step (r # rs) =
     itimer_run (snd (itimer_step (\<lambda>_. r) ts_target ts_step)) ts_step rs"

lemma itimer_run_funpow:
  "itimer_run t step rs = ((\<lambda>t. timespec_monoadd t step) ^^ length (filter (\<lambda>r. r = 0) rs)) t"
  using funpow_swap1 [of "\<lambda>t. timespec_monoadd t step"]
  by (induction rs arbitrary: t) (simp_all add: itimer_step_def)

section \<open>Properties\<close>

text \<open>
  C35: adding two normalised times that stay in the 64-bit range gives the normalised time of
  the sum of the instants: the carry out of the nanoseconds is never lost or doubled.
\<close>

theorem timespec_monoadd_correct:
  assumes "ts_norm a" "ts_norm b" "in_s64 (tv_sec a + tv_sec b)" "in_s64 (tv_sec a + tv_sec b + 1)"
  shows "nanos (timespec_monoadd a b) = nanos a + nanos b \<and> ts_norm (timespec_monoadd a b)"
  using assms by (rule monoadd_exact)

theorem timespec_monoadd_correct_witness:
  "nanos (timespec_monoadd \<lparr>tv_sec = 7, tv_nsec = 999999999\<rparr> \<lparr>tv_sec = 1, tv_nsec = 2\<rparr>) = 9000000001"
proof -
  let ?a = "\<lparr>tv_sec = 7, tv_nsec = 999999999\<rparr>" and ?b = "\<lparr>tv_sec = 1, tv_nsec = 2\<rparr>"
  have "ts_norm ?a" "ts_norm ?b" "in_s64 (tv_sec ?a + tv_sec ?b)" "in_s64 (tv_sec ?a + tv_sec ?b + 1)"
    by (simp_all add: ts_norm_def TIMING_GIGA_def in_s64_def)
  from timespec_monoadd_correct [OF this] show ?thesis by (simp add: nanos_def TIMING_GIGA_def)
qed

text \<open>
  C36: both monotonic differences compute the difference of the instants, cut off at zero when
  the subtrahend is later, as a normalised time; the two only differ in the argument order.
\<close>

theorem timespec_monodiff_correct:
  assumes "ts_norm a" "ts_norm b" "in_s64 (tv_sec a - tv_sec b)"
  shows "nanos (timespec_monodiff_lmr a b) = max 0 (nanos a - nanos b) \<and>
    ts_norm (timespec_monodiff_lmr a b) \<and> timespec_monodiff_rml b a = timespec_monodiff_lmr a b"
  using monodiff_lmr_exact [OF assms] by (simp add: monodiff_rml_lmr)

theorem timespec_monodiff_correct_witness:
  "nanos (timespec_monodiff_lmr \<lparr>tv_sec = 7, tv_nsec = 1\<rparr> \<lparr>tv_sec = 5, tv_nsec = 3\<rparr>) = 1999999998"
proof -
  let ?a = "\<lparr>tv_sec = 7, tv_nsec = 1\<rparr>" and ?b = "\<lparr>tv_sec = 5, tv_nsec = 3\<rparr>"
  have "ts_norm ?a" "ts_norm ?b" "in_s64 (tv_sec ?a - tv_sec ?b)"
    by (simp_all add: ts_norm_def TIMING_GIGA_def in_s64_def)
  from timespec_monodiff_correct [OF this] show ?thesis by (simp add: nanos_def TIMING_GIGA_def)
qed

text \<open>
  C37: the interval timer does not drift. After a successful start at \<open>now\<close> and any sequence
  of steps, of which \<open>n\<close> slept successfully, the target is exactly \<open>now\<close> plus \<open>n + 1\<close>
  periods; a step whose sleep fails leaves it unchanged.
\<close>

theorem itimer_no_drift:
  assumes "itimer_room step (Suc (length rs)) now"
  shows "nanos (itimer_run (snd (itimer_start (0, now) step)) step rs)
      = nanos now + (int (length (filter (\<lambda>r. r = 0) rs)) + 1) * nanos step"
proof -
  let ?n = "length (filter (\<lambda>r. r = 0) rs)"
  have "itimer_room step (Suc ?n + (length rs - ?n)) now"
    using assms length_filter_le [of "\<lambda>r. r = 0" rs] by simp
  from itimer.no_drift [OF this]
  have "nanos (((\<lambda>t. timespec_monoadd t step) ^^ Suc ?n) now) = nanos now + int (Suc ?n) * nanos step"
    by simp
  moreover have "itimer_run (snd (itimer_start (0, now) step)) step rs
      = ((\<lambda>t. timespec_monoadd t step) ^^ Suc ?n) now"
    unfolding itimer_run_funpow funpow_Suc_right by (simp add: itimer_start_def)
  ultimately show ?thesis by simp
qed

theorem itimer_no_drift_witness:
  "nanos (itimer_run (snd (itimer_start (0, \<lparr>tv_sec = 3, tv_nsec = 800000000\<rparr>)
      \<lparr>tv_sec = 0, tv_nsec = 300000000\<rparr>)) \<lparr>tv_sec = 0, tv_nsec = 300000000\<rparr> [0, 4, 0]) = 4700000000"
proof -
  have "itimer_room \<lparr>tv_sec = 0, tv_nsec = 300000000\<rparr> (Suc (length [0, 4, 0::int]))
      \<lparr>tv_sec = 3, tv_nsec = 800000000\<rparr>"
    by (simp add: itimer_room_def ts_norm_def TIMING_GIGA_def)
  from itimer_no_drift [OF this] show ?thesis by (simp add: nanos_def TIMING_GIGA_def)
qed

text \<open>
  For times that are not absurdly far apart \<open>timespec_diff\<close> is the exact difference of
  the instants, also when it is negative, and \<open>timespec_milli\<close> of it is the difference in
  milliseconds rounded down.
\<close>

theorem timespec_diff_milli_correct:
  assumes "ts_norm a" "ts_norm b" "0 \<le> tv_sec a" "tv_sec a < 9000000000000000"
    and "0 \<le> tv_sec b" "tv_sec b < 9000000000000000"
  shows "nanos (timespec_diff a b) = nanos b - nanos a \<and> ts_norm (timespec_diff a b) \<and>
    timespec_milli (timespec_diff a b) = (nanos b - nanos a) div 1000000"
proof -
  have "in_s64 (tv_sec b - tv_sec a)" "in_s64 (tv_sec b - tv_sec a - 1)"
    using assms(3-) by (auto intro: in_s64_I)
  from timespec_diff_exact [OF assms(1,2) this]
  have d: "nanos (timespec_diff a b) = nanos b - nanos a" "ts_norm (timespec_diff a b)"
    by simp_all
  have "- 9000000000000000 \<le> tv_sec (timespec_diff a b)" "tv_sec (timespec_diff a b) \<le> 9000000000000000"
    using assms(3-) by (auto simp: timespec_diff_def width_simps in_s64_I)
  with d timespec_milli_floor show ?thesis by simp
qed

theorem timespec_diff_milli_correct_witness:
  "timespec_milli (timespec_diff \<lparr>tv_sec = 10, tv_nsec = 5000000\<rparr> \<lparr>tv_sec = 10, tv_nsec = 2500000\<rparr>) = -3"
proof -
  let ?a = "\<lparr>tv_sec = 10, tv_nsec = 5000000\<rparr>" and ?b = "\<lparr>tv_sec = 10, tv_nsec = 2500000\<rparr>"
  have "ts_norm ?a" "ts_norm ?b" "0 \<le> tv_sec ?a" "tv_sec ?a < 9000000000000000"
      "0 \<le> tv_sec ?b" "tv_sec ?b < 9000000000000000"
    by (simp_all add: ts_norm_def TIMING_GIGA_def)
  from timespec_diff_milli_correct [OF this] show ?thesis by (simp add: nanos_def TIMING_GIGA_def)
qed

text \<open>
  The Mach absolute sleep sleeps exactly until the requested time: the interval given to
  \<open>nanosleep\<close> is the remaining time, zero when the time has passed, and a failing clock
  read is returned without sleeping.
\<close>

theorem nanosleep_abstime_correct:
  assumes "ts_norm now" "ts_norm req" "in_s64 (tv_sec req - tv_sec now)"
  shows "\<exists>d. clock_nanosleep_abstime (e, now) sleep req
        = (if e = 0 then (sleep d, Some d) else (e, None)) \<and>
      ts_norm d \<and> nanos d = max 0 (nanos req - nanos now)"
  using monodiff_lmr_exact [OF assms(2,1,3)]
  by (intro exI [of _ "timespec_monodiff_lmr req now"])
    (simp add: clock_nanosleep_abstime_def monodiff_rml_lmr Let_def)

theorem nanosleep_abstime_correct_witness:
  "\<exists>d. clock_nanosleep_abstime (0, \<lparr>tv_sec = 5, tv_nsec = 0\<rparr>) (\<lambda>_. 0) \<lparr>tv_sec = 6, tv_nsec = 1\<rparr>
     = (0, Some d) \<and> ts_norm d \<and> nanos d = 1000000001"
proof -
  let ?n = "\<lparr>tv_sec = 5, tv_nsec = 0\<rparr>" and ?r = "\<lparr>tv_sec = 6, tv_nsec = 1\<rparr>"
  have "ts_norm ?n" "ts_norm ?r" "in_s64 (tv_sec ?r - tv_sec ?n)"
    by (simp_all add: ts_norm_def TIMING_GIGA_def in_s64_def)
  from nanosleep_abstime_correct [OF this, of 0 "\<lambda>_. 0"] show ?thesis
    by (simp add: nanos_def TIMING_GIGA_def)
qed

text \<open>
  Only the first call of \<open>timing_mach_init\<close> reaches the kernel; whatever it returned,
  every later call returns -2 and changes nothing, so a failed initialisation is never
  retried.
\<close>

theorem timing_mach_init_once:
  assumes "call_count g = 0"
  shows "timing_mach_init tb2 srv2 (snd (timing_mach_init tb1 srv1 g))
    = (- 2, snd (timing_mach_init tb1 srv1 g))"
  using assms
  by (auto simp: timing_mach_init_def Let_def s32_def case_prod_beta)

theorem timing_mach_init_once_witness:
  "timing_mach_init (0, 1, 1) (0, 9) (snd (timing_mach_init (5, 0, 0) (0, 9)
      \<lparr>numer = 0, denom = 0, cclock = 0 :: nat, call_count = 0\<rparr>))
    = (- 2, snd (timing_mach_init (5, 0, 0) (0, 9) \<lparr>numer = 0, denom = 0, cclock = 0, call_count = 0\<rparr>))"
  by (rule timing_mach_init_once) simp

end
