(* ===== verification/Seq_Server.thy ===== *)
theory Seq_Server
  imports Bytes Timespec
begin

text \<open>
  The \<open>serve\<close> side of \<open>udp_ts_seq_reply.cpp\<close>: every datagram is sent back behind a header
  with the server's clock, a per-client sequence number and, for the new protocol, the
  client's masked address. The state are the two global maps; one call of \<open>serve1\<close> is one
  step. The received datagram and the clock reading are inputs, the datagram handed to
  \<open>sendto\<close> is the output.
\<close>

section \<open>Data\<close>

text \<open>
  \<open>sin_addr\<close> and \<open>sin_port\<close> are the address and port as numbers; their bytes in memory are
  in network order.
\<close>

record sockaddr_in =
  sin_family :: nat
  sin_addr :: u32
  sin_port :: u16

definition AF_INET :: nat where
  "AF_INET = 2"

definition IP_MASK :: "byte list" where
  "IP_MASK = [0x44, 0x55, 0x66, 0x77]"

definition PORT_MASK :: "byte list" where
  "PORT_MASK = [0x88, 0x99]"

definition NEWPROTO_SIGNATURE :: "byte list" where
  "NEWPROTO_SIGNATURE = [0x6E, 0x55, 0x54, 0x73]"

record server =
  seqs :: "u32 \<rightharpoonup> u32"
  lastseens :: "u32 \<rightharpoonup> timespec"

definition init_server :: server where
  "init_server = \<lparr>seqs = Map.empty, lastseens = Map.empty\<rparr>"

text \<open>\<open>std::map::operator[]\<close> reads 0 for an absent key.\<close>

definition map_at :: "('k \<rightharpoonup> u32) \<Rightarrow> 'k \<Rightarrow> u32" where
  "map_at m k = (case m k of None \<Rightarrow> 0 | Some v \<Rightarrow> v)"

section \<open>The step\<close>

definition sec_high :: "timespec \<Rightarrow> u32" where
  "sec_high ts = ucast (drop_bit 32 ((word_of_int (tv_sec ts) :: u64) AND 0xFFFFFFFF00000000))"

definition sec_low :: "timespec \<Rightarrow> u32" where
  "sec_low ts = ucast (drop_bit 0 ((word_of_int (tv_sec ts) :: u64) AND 0x00000000FFFFFFFF))"

definition nsec32 :: "timespec \<Rightarrow> u32" where
  "nsec32 ts = word_of_int (tv_nsec ts)"

definition request_id :: "byte list \<Rightarrow> u32" where
  "request_id buf_ret = (if length buf_ret \<ge> 4 then of_le32 (bytes_at 0 4 buf_ret) else 0)"

definition is_newproto :: "byte list \<Rightarrow> bool" where
  "is_newproto buf_ret \<longleftrightarrow> length buf_ret \<ge> 8 \<and> bytes_at 4 4 buf_ret = NEWPROTO_SIGNATURE"

text \<open>The \<open>lastseens\<close> test: a new client, or one silent for more than 60 s, restarts at 0.\<close>

definition reset_if_stale :: "server \<Rightarrow> u32 \<Rightarrow> timespec \<Rightarrow> server" where
  "reset_if_stale st cid ts =
     (case lastseens st cid of
        Some lastseen \<Rightarrow>
          (let age = timespec_diff lastseen ts
           in if tv_sec age > 60 then st\<lparr>seqs := (seqs st)(cid \<mapsto> 0)\<rparr> else st)
      | None \<Rightarrow> st\<lparr>seqs := (seqs st)(cid \<mapsto> 0)\<rparr>)"

definition put_address :: "sockaddr_in \<Rightarrow> byte list \<Rightarrow> byte list" where
  "put_address sa buf =
     (if sin_family sa = AF_INET then
        put 20 (map2 (XOR) (be16 (sin_port sa)) PORT_MASK)
          (put 16 (map2 (XOR) (be32 (sin_addr sa)) IP_MASK) buf)
      else put 20 PORT_MASK (put 16 IP_MASK buf))"

definition serve1 ::
    "server \<Rightarrow> (byte list \<times> sockaddr_in) option \<Rightarrow> timespec
       \<Rightarrow> server \<times> (byte list \<times> sockaddr_in) option" where
  "serve1 st recv ts =
     (case recv of None \<Rightarrow> (st, None)
      | Some (dgram, sa) \<Rightarrow>
          (let buf0 = put 0 (take (65536 - 22) dgram) (replicate 65536 0);
               ret = length (take (65536 - 22) dgram);
               cid = request_id (take ret buf0);
               also_put_ip_port = is_newproto (take ret buf0);
               (buf1, ret1) =
                 (if \<not> also_put_ip_port then (put 16 (take ret buf0) buf0, ret + 16)
                  else (put 22 (take ret buf0) buf0, ret + 22));
               st1 = reset_if_stale st cid ts;
               buf2 = put 0 (be32 (sec_high ts)) buf1;
               buf3 = put 4 (be32 (sec_low ts)) buf2;
               buf4 = put 8 (be32 (nsec32 ts)) buf3;
               buf5 = put 12 (be32 (map_at (seqs st1) cid)) buf4;
               buf6 = (if also_put_ip_port then put_address sa buf5 else buf5);
               st2 = st1\<lparr>seqs := (seqs st1)(cid \<mapsto> map_at (seqs st1) cid + 1),
                         lastseens := (lastseens st1)(cid \<mapsto> ts)\<rparr>
           in (st2, Some (take ret1 buf6, sa))))"

section \<open>The reply\<close>

definition reply_header :: "timespec \<Rightarrow> u32 \<Rightarrow> byte list" where
  "reply_header ts seq = be32 (sec_high ts) @ be32 (sec_low ts) @ be32 (nsec32 ts) @ be32 seq"

definition reply_address :: "sockaddr_in \<Rightarrow> byte list" where
  "reply_address sa =
     (if sin_family sa = AF_INET then
        map2 (XOR) (be32 (sin_addr sa)) IP_MASK @ map2 (XOR) (be16 (sin_port sa)) PORT_MASK
      else IP_MASK @ PORT_MASK)"

lemma length_reply_header [simp]: "length (reply_header ts seq) = 16"
  by (simp add: reply_header_def)

lemma length_masks [simp]: "length IP_MASK = 4" "length PORT_MASK = 2"
  by (simp_all add: IP_MASK_def PORT_MASK_def)

lemma length_reply_address [simp]: "length (reply_address sa) = 6"
  by (simp add: reply_address_def)

lemma puts_address:
  "22 \<le> length b \<Longrightarrow> put_address sa (put 0 (reply_header ts seq) b)
     = put 0 (reply_header ts seq @ reply_address sa) b"
  by (simp add: buffer_simps put_address_def reply_address_def)

text \<open>One step in closed form: the new state and the reply, without the buffer.\<close>

lemma serve1_closed:
  assumes "d = take 65514 dgram"
  shows "serve1 st (Some (dgram, sa)) ts =
    (let cid = request_id d; st1 = reset_if_stale st cid ts; seq = map_at (seqs st1) cid
     in (st1\<lparr>seqs := (seqs st1)(cid \<mapsto> seq + 1), lastseens := (lastseens st1)(cid \<mapsto> ts)\<rparr>,
         Some (reply_header ts seq @ (if is_newproto d then reply_address sa else []) @ d, sa)))"
proof -
  have l: "length d \<le> 65514"
    using assms by simp
  have r: "take (length d) (put 0 d (replicate 65536 0)) = d"
    by (rule take_length_put0) simp
  have plain: "take (length d + 16) (put 0 (reply_header ts seq) (put 16 d (put 0 d (replicate 65536 0))))
      = reply_header ts seq @ d" for seq
    using l by (intro take_put_put) (simp_all add: buffer_simps)
  have masked: "take (length d + 22)
        (put 0 (reply_header ts seq @ reply_address sa) (put 22 d (put 0 d (replicate 65536 0))))
      = (reply_header ts seq @ reply_address sa) @ d" for seq
    using l by (intro take_put_put) (simp_all add: buffer_simps)
  have t: "take (65536 - 22) dgram = d"
    using assms by simp
  show ?thesis
    unfolding serve1_def option.case prod.case t Let_def
    using r plain masked l
    by (simp add: puts_address buffer_simps flip: reply_header_def)
qed

section \<open>Runs and the per-client counters\<close>

text \<open>
  The serving loop calls \<open>serve1\<close> for ever. An event is what \<open>recvfrom\<close> delivered and the
  clock reading of that call.
\<close>

type_synonym serve_event = "(byte list \<times> sockaddr_in) option \<times> timespec"

fun serve_run :: "server \<Rightarrow> serve_event list \<Rightarrow> server" where
  "serve_run st [] = st"
| "serve_run st ((recv, ts) # evs) = serve_run (fst (serve1 st recv ts)) evs"

text \<open>
  What a client is promised, seen from its own requests only: a count of the requests since
  it was last silent for more than 60 seconds, kept with the time of the latest one.
\<close>

definition client_number :: "(nat \<times> timespec) option \<Rightarrow> timespec \<Rightarrow> nat" where
  "client_number c ts =
     (case c of None \<Rightarrow> 0
      | Some (k, prev) \<Rightarrow> if tv_sec (timespec_diff prev ts) > 60 then 0 else k)"

fun client_after :: "(nat \<times> timespec) option \<Rightarrow> timespec list \<Rightarrow> (nat \<times> timespec) option" where
  "client_after c [] = c"
| "client_after c (t # ts) = client_after (Some (Suc (client_number c t), t)) ts"

fun request_times :: "u32 \<Rightarrow> serve_event list \<Rightarrow> timespec list" where
  "request_times cid [] = []"
| "request_times cid ((None, ts) # evs) = request_times cid evs"
| "request_times cid ((Some (dgram, sa), ts) # evs) =
     (if request_id (take 65514 dgram) = cid then ts # request_times cid evs
      else request_times cid evs)"

definition tracks :: "server \<Rightarrow> u32 \<Rightarrow> (nat \<times> timespec) option \<Rightarrow> bool" where
  "tracks st cid c \<longleftrightarrow>
     (case c of None \<Rightarrow> lastseens st cid = None
      | Some (k, prev) \<Rightarrow> lastseens st cid = Some prev \<and> seqs st cid = Some (of_nat k))"

lemma serve1_None [simp]: "serve1 st None ts = (st, None)"
  by (simp add: serve1_def)

lemma tracks_number:
  "tracks st cid c \<Longrightarrow> map_at (seqs (reset_if_stale st cid ts)) cid = of_nat (client_number c ts)"
  by (auto simp: tracks_def reset_if_stale_def client_number_def map_at_def Let_def
      split: option.splits prod.splits)

lemma reset_other [simp]: "i \<noteq> cid \<Longrightarrow> seqs (reset_if_stale st cid ts) i = seqs st i"
  by (auto simp: reset_if_stale_def Let_def split: option.splits)

lemma reset_lastseens [simp]: "lastseens (reset_if_stale st cid ts) = lastseens st"
  by (auto simp: reset_if_stale_def Let_def split: option.splits)

lemma tracks_step:
  assumes "tracks st i c"
  shows "tracks (fst (serve1 st (Some (dgram, sa)) ts)) i
    (if request_id (take 65514 dgram) = i then Some (Suc (client_number c ts), ts) else c)"
  using assms tracks_number [OF assms]
  by (auto simp: serve1_closed [OF refl] Let_def tracks_def add.commute
      split: option.splits prod.splits)

lemma tracks_run:
  "tracks st i c \<Longrightarrow> tracks (serve_run st evs) i (client_after c (request_times i evs))"
proof (induction st evs arbitrary: c rule: serve_run.induct)
  case (1 st)
  then show ?case by simp
next
  case (2 st recv ts evs)
  show ?case
  proof (cases recv)
    case None
    with 2 show ?thesis by simp
  next
    case (Some p)
    obtain dgram sa where p: "p = (dgram, sa)" by (cases p)
    with "2.IH" [OF tracks_step [OF "2.prems", of dgram sa ts, folded p, folded Some]] Some
    show ?thesis by (simp split: if_splits)
  qed
qed

lemma tracks_init: "tracks init_server i None"
  by (simp add: tracks_def init_server_def)

lemma reply_after_run:
  "snd (serve1 (serve_run init_server evs) (Some (dgram, sa)) ts) =
    (let d = take 65514 dgram; k = client_number (client_after None (request_times (request_id d) evs)) ts
     in Some (reply_header ts (of_nat k) @ (if is_newproto d then reply_address sa else []) @ d, sa))"
  using tracks_number [OF tracks_run [OF tracks_init]]
  by (simp add: serve1_closed [OF refl] Let_def)

text \<open>A client that is never silent for more than 60 seconds is numbered without gaps.\<close>

fun no_long_gap :: "timespec list \<Rightarrow> bool" where
  "no_long_gap (s # t # ts) \<longleftrightarrow> tv_sec (timespec_diff s t) \<le> 60 \<and> no_long_gap (t # ts)"
| "no_long_gap _ \<longleftrightarrow> True"

lemma client_after_gapless:
  "no_long_gap (prev # ts) \<Longrightarrow> client_after (Some (k, prev)) ts
     = Some (k + length ts, last (prev # ts))"
  by (induction ts arbitrary: k prev) (auto simp: client_number_def)

lemma no_long_gap_snoc: "no_long_gap (ts @ [t]) \<Longrightarrow>
    no_long_gap ts \<and> (ts \<noteq> [] \<longrightarrow> tv_sec (timespec_diff (last ts) t) \<le> 60)"
proof (induction ts rule: no_long_gap.induct)
  case (1 s t' ts)
  then show ?case by simp
qed simp_all

lemma gapless_number:
  assumes "no_long_gap (ts @ [t])"
  shows "client_number (client_after None ts) t = length ts"
proof (cases ts)
  case Nil
  then show ?thesis by (simp add: client_number_def)
next
  case (Cons s rest)
  with no_long_gap_snoc [OF assms] have "no_long_gap (s # rest)"
      "tv_sec (timespec_diff (last (s # rest)) t) \<le> 60"
    by simp_all
  then show ?thesis
    using Cons client_after_gapless [of s rest 1] by (auto simp: client_number_def)
qed

section \<open>Invariants of the two maps\<close>

definition server_inv :: "server \<Rightarrow> bool" where
  "server_inv st \<longleftrightarrow> dom (seqs st) = dom (lastseens st)"

lemma reset_dom: "dom (seqs (reset_if_stale st cid ts)) \<subseteq> insert cid (dom (seqs st))"
    "dom (seqs st) \<subseteq> dom (seqs (reset_if_stale st cid ts))"
  by (auto simp: reset_if_stale_def Let_def split: option.splits if_splits)

lemma serve1_doms:
  "dom (lastseens (fst (serve1 st (Some (dgram, sa)) ts)))
     = insert (request_id (take 65514 dgram)) (dom (lastseens st))"
  "dom (seqs (fst (serve1 st (Some (dgram, sa)) ts)))
     = insert (request_id (take 65514 dgram)) (dom (seqs st))"
  using reset_dom by (fastforce simp: serve1_closed [OF refl] Let_def)+

lemma recv_cases:
  obtains "recv = None" | dgram sa where "recv = Some (dgram, sa)"
  by (cases recv) auto

lemma serve1_inv: "server_inv st \<Longrightarrow> server_inv (fst (serve1 st recv ts))"
  by (cases recv rule: recv_cases) (simp_all add: server_inv_def serve1_doms)

lemma serve_run_inv: "server_inv st \<Longrightarrow> server_inv (serve_run st evs)"
  by (induction st evs rule: serve_run.induct) (auto intro: serve1_inv)

lemma init_inv: "server_inv init_server"
  by (simp add: server_inv_def init_server_def)

lemma serve1_keeps: "dom (seqs st) \<subseteq> dom (seqs (fst (serve1 st recv ts)))"
  by (cases recv rule: recv_cases) (simp_all add: serve1_doms subset_insertI)

section \<open>Properties\<close>

text \<open>
  C5: what the server sends back, byte by byte. After any history of requests from any
  clients, the reply to a datagram is 8 bytes of seconds, 4 of nanoseconds and the 4-byte
  sequence number, all in network order, then for the new protocol the masked address of the
  sender, then the datagram unchanged. The sequence number depends on this client's own
  requests only: it counts those since the client was last silent for more than 60 seconds,
  modulo \<open>2 ^ 32\<close>.
\<close>

theorem serve1_reply_correct:
  "snd (serve1 (serve_run init_server evs) (Some (dgram, sa)) ts) =
    (let d = take 65514 dgram;
         k = client_number (client_after None (request_times (request_id d) evs)) ts
     in Some (be32 (sec_high ts) @ be32 (sec_low ts) @ be32 (nsec32 ts) @ be32 (of_nat k) @
          (if is_newproto d then reply_address sa else []) @ d, sa))"
  unfolding reply_after_run by (simp add: Let_def reply_header_def)

text \<open>
  C18: requests with the same id, which is their first four bytes (0 if they are shorter), get
  consecutive sequence numbers from 0, as long as two of them are never more than 60 seconds apart: the one after \<open>n\<close> earlier ones is
  answered with number \<open>n\<close>. It does not matter who sent them, nor what is sent under other ids in between.
\<close>

theorem serve1_consecutive:
  assumes "no_long_gap (request_times (request_id (take 65514 dgram)) evs @ [ts])"
  shows "snd (serve1 (serve_run init_server evs) (Some (dgram, sa)) ts) =
    Some (reply_header ts (of_nat (length (request_times (request_id (take 65514 dgram)) evs))) @
      (if is_newproto (take 65514 dgram) then reply_address sa else []) @ take 65514 dgram, sa)"
  unfolding reply_after_run Let_def gapless_number [OF assms] by simp

theorem serve1_consecutive_witness:
  "snd (serve1 (serve_run init_server
      [(Some ([1, 0, 0, 0], \<lparr>sin_family = 2, sin_addr = 1, sin_port = 1\<rparr>), \<lparr>tv_sec = 5, tv_nsec = 0\<rparr>),
       (Some ([2], \<lparr>sin_family = 2, sin_addr = 1, sin_port = 1\<rparr>), \<lparr>tv_sec = 6, tv_nsec = 0\<rparr>)])
      (Some ([1, 0, 0, 0, 7], \<lparr>sin_family = 2, sin_addr = 9, sin_port = 9\<rparr>)) \<lparr>tv_sec = 9, tv_nsec = 0\<rparr>)
    = Some (reply_header \<lparr>tv_sec = 9, tv_nsec = 0\<rparr> 1 @ [1, 0, 0, 0, 7], \<lparr>sin_family = 2, sin_addr = 9, sin_port = 9\<rparr>)"
proof -
  let ?sa = "\<lparr>sin_family = 2, sin_addr = 1, sin_port = 1\<rparr>"
  let ?evs = "[(Some ([1, 0, 0, 0], ?sa), \<lparr>tv_sec = 5, tv_nsec = 0\<rparr>), (Some ([2], ?sa), \<lparr>tv_sec = 6, tv_nsec = 0\<rparr>)]"
  have i: "request_id [1, 0, 0, 0] = request_id [1, 0, 0, 0, 7]" "request_id [2] \<noteq> request_id [1, 0, 0, 0, 7]"
    by (simp_all add: request_id_def bytes_at_def of_le32_def of_be32_def)
  then have t: "request_times (request_id (take 65514 [1, 0, 0, 0, 7])) ?evs = [\<lparr>tv_sec = 5, tv_nsec = 0\<rparr>]"
    by simp
  have "no_long_gap (request_times (request_id (take 65514 [1, 0, 0, 0, 7])) ?evs @ [\<lparr>tv_sec = 9, tv_nsec = 0\<rparr>])"
    unfolding t by (simp add: timespec_diff_def s64_def)
  from serve1_consecutive [OF this, of "\<lparr>sin_family = 2, sin_addr = 9, sin_port = 9\<rparr>"] show ?thesis
    unfolding t by (simp add: is_newproto_def)
qed

text \<open>
  The session of the README: one client sends the lines 123, ABC and DEF. It is shown the numbers 1, 2, 3
  there; the server numbers each of them 0, because their first four bytes differ.
\<close>

definition readme_line :: "byte list \<Rightarrow> timespec \<Rightarrow> serve_event" where
  "readme_line d t = (Some (d, \<lparr>sin_family = AF_INET, sin_addr = 0x7F000001, sin_port = 40000\<rparr>), t)"

theorem readme_session_numbers:
  defines "l1 \<equiv> [0x31, 0x32, 0x33, 0x0A]" and "l2 \<equiv> [0x41, 0x42, 0x43, 0x0A]" and "l3 \<equiv> [0x44, 0x45, 0x46, 0x0A]"
  shows "map_option fst (snd (serve1 (serve_run init_server []) (fst (readme_line l1 t1)) t1))
      = Some (reply_header t1 0 @ l1) \<and>
    map_option fst (snd (serve1 (serve_run init_server [readme_line l1 t1]) (fst (readme_line l2 t2)) t2))
      = Some (reply_header t2 0 @ l2) \<and>
    map_option fst (snd (serve1 (serve_run init_server [readme_line l1 t1, readme_line l2 t2])
      (fst (readme_line l3 t3)) t3)) = Some (reply_header t3 0 @ l3)"
proof -
  have "request_id l1 \<noteq> request_id l2" "request_id l1 \<noteq> request_id l3" "request_id l2 \<noteq> request_id l3"
      "length l1 = 4" "length l2 = 4" "length l3 = 4"
    by (simp_all add: l1_def l2_def l3_def request_id_def bytes_at_def of_le32_def of_be32_def)
  then show ?thesis
    by (simp add: readme_line_def reply_after_run Let_def client_number_def is_newproto_def del: serve_run.simps)
qed

text \<open>
  C23: the two maps always have the same keys, no key is ever removed, and a failing
  \<open>recvfrom\<close> changes nothing and sends nothing.
\<close>

theorem server_maps_inv:
  "server_inv (serve_run init_server evs) \<and>
   dom (seqs (serve_run init_server evs)) \<subseteq> dom (seqs (fst (serve1 (serve_run init_server evs) recv ts))) \<and>
   serve1 st None ts = (st, None)"
  by (intro conjI serve_run_inv init_inv serve1_keeps serve1_None)

end
