(* ===== verification/Ts_Probe.thy ===== *)
theory Ts_Probe
  imports Seq_Server
begin

text \<open>
  The sending child of \<open>udp_ts_seq_reply probe\<close>: the computation of the packet interval,
  the packet layout and the endless sending loop. A trap (division by zero) is \<open>None\<close>.
  One iteration of the loop is \<open>probe_step\<close>; its clock reading is an argument, what it
  passes to \<open>sendto\<close> and the absolute time it sleeps until are results.
\<close>

section \<open>Rates\<close>

definition interval_us :: "int \<Rightarrow> int \<Rightarrow> int \<Rightarrow> int" where
  "interval_us pktsize overhead kbps = s32 (s32 (s32 (pktsize + overhead) * 8000) sdiv kbps)"

definition delay_ns :: "int \<Rightarrow> int \<Rightarrow> int \<Rightarrow> int" where
  "delay_ns pktsize overhead kbps = s32 (interval_us pktsize overhead kbps * 1000)"

definition packets_in_first_5_seconds :: "int \<Rightarrow> u32 option" where
  "packets_in_first_5_seconds delay =
     (if delay = 0 then None else Some (word_of_int (s64 (1000 * 1000 * 1000 sdiv delay * 5))))"

section \<open>The packet\<close>

definition probe_id :: "timespec \<Rightarrow> u32" where
  "probe_id ts_next =
     word_of_int (tv_sec ts_next AND 0xFFFFFFFF) XOR word_of_int (tv_nsec ts_next AND 0xFFFFFFFF)"

definition probe_packet :: "u32 \<Rightarrow> timespec \<Rightarrow> u32 \<Rightarrow> byte list \<Rightarrow> byte list" where
  "probe_packet cid ts seq buf =
     put 20 (be32 seq)
      (put 16 (be32 (nsec32 ts))
        (put 12 (be32 (sec_low ts))
          (put 8 (be32 (sec_high ts))
            (put 4 NEWPROTO_SIGNATURE (put 0 (le32 cid) buf)))))"

section \<open>The loop\<close>

record probe_state =
  p_id :: u32
  p_seq :: u32
  p_next :: timespec
  p_buf :: "byte list"

definition probe_advance :: "int \<Rightarrow> timespec \<Rightarrow> timespec" where
  "probe_advance delay ts_next =
     (let t = ts_next\<lparr>tv_nsec := s64 (tv_nsec ts_next + delay)\<rparr>
      in if tv_nsec t > 1000 * 1000 * 1000 then
           t\<lparr>tv_nsec := s64 (tv_nsec t - 1000 * 1000 * 1000), tv_sec := s64 (tv_sec t + 1)\<rparr>
         else t)"

text \<open>\<open>junk\<close> is the uninitialised stack buffer, of which \<open>memset\<close> clears a prefix.\<close>

definition probe_start :: "int \<Rightarrow> byte list \<Rightarrow> timespec \<Rightarrow> probe_state" where
  "probe_start pktsize junk now =
     \<lparr>p_id = probe_id now, p_seq = 0, p_next = now,
      p_buf = put 0 (replicate (nat pktsize) 0) junk\<rparr>"

text \<open>The result: the next state, the datagram sent and the time slept until.\<close>

definition probe_step ::
    "int \<Rightarrow> int \<Rightarrow> u32 \<Rightarrow> probe_state \<Rightarrow> timespec \<Rightarrow> probe_state \<times> byte list \<times> timespec" where
  "probe_step pktsize delay warmup p ts =
     (let buf = probe_packet (p_id p) ts (p_seq p) (p_buf p);
          len = (if p_seq p < warmup then 24 else pktsize);
          ts_next = probe_advance delay (p_next p)
      in (p\<lparr>p_buf := buf, p_seq := p_seq p + 1, p_next := ts_next\<rparr>, take (nat len) buf, ts_next))"

fun probe_run ::
    "int \<Rightarrow> int \<Rightarrow> u32 \<Rightarrow> probe_state \<Rightarrow> timespec list \<Rightarrow> probe_state \<times> byte list list" where
  "probe_run pktsize delay warmup p [] = (p, [])"
| "probe_run pktsize delay warmup p (t # ts) =
     (let (p1, d, _) = probe_step pktsize delay warmup p t;
          (p2, ds) = probe_run pktsize delay warmup p1 ts
      in (p2, d # ds))"

text \<open>The child process: the trap on a zero interval, or the datagrams of the first iterations.\<close>

definition probe ::
    "int \<Rightarrow> int \<Rightarrow> int \<Rightarrow> byte list \<Rightarrow> timespec \<Rightarrow> timespec list \<Rightarrow> byte list list option" where
  "probe pktsize kbps overhead junk now clock =
     (let delay = delay_ns pktsize overhead kbps
      in case packets_in_first_5_seconds delay of None \<Rightarrow> None
         | Some warmup \<Rightarrow>
             Some (snd (probe_run pktsize delay warmup (probe_start pktsize junk now) clock)))"

section \<open>Layout of the packet\<close>

definition probe_header :: "u32 \<Rightarrow> timespec \<Rightarrow> u32 \<Rightarrow> byte list" where
  "probe_header cid ts seq =
     le32 cid @ NEWPROTO_SIGNATURE @ be32 (sec_high ts) @ be32 (sec_low ts) @ be32 (nsec32 ts) @ be32 seq"

lemma length_signature [simp]: "length NEWPROTO_SIGNATURE = 4"
  by (simp add: NEWPROTO_SIGNATURE_def)

lemma length_probe_header [simp]: "length (probe_header cid ts seq) = 24"
  by (simp add: probe_header_def)

lemma probe_packet_eq: "24 \<le> length buf \<Longrightarrow> probe_packet cid ts seq buf = put 0 (probe_header cid ts seq) buf"
  by (simp add: probe_packet_def probe_header_def buffer_simps)

text \<open>Every packet is the header and padding; the padding stays zero in every iteration.\<close>

definition probe_buf_inv :: "int \<Rightarrow> byte list \<Rightarrow> bool" where
  "probe_buf_inv pktsize buf \<longleftrightarrow> 24 \<le> pktsize \<and> pktsize \<le> 65536 \<and> length buf = 65536 \<and>
     bytes_at 24 (nat pktsize - 24) buf = replicate (nat pktsize - 24) 0"

lemma probe_start_buf:
  assumes "24 \<le> pktsize" "pktsize \<le> 65536" "length junk = 65536"
  shows "probe_buf_inv pktsize (p_buf (probe_start pktsize junk now))"
  using assms by (auto simp: probe_buf_inv_def probe_start_def buffer_simps bytes_at_def put_def min_def)

lemma probe_packet_inv:
  "probe_buf_inv pktsize buf \<Longrightarrow> probe_buf_inv pktsize (probe_packet cid ts seq buf)"
  by (auto simp: probe_buf_inv_def probe_packet_eq buffer_simps)

lemma probe_packet_bytes:
  assumes "probe_buf_inv pktsize buf" "24 \<le> len" "len \<le> pktsize"
  shows "take (nat len) (probe_packet cid ts seq buf)
    = probe_header cid ts seq @ replicate (nat len - 24) 0"
proof -
  have "take (nat len - 24) (bytes_at 24 (nat pktsize - 24) buf) = replicate (nat len - 24) 0"
    using assms by (auto simp: probe_buf_inv_def min_def)
  then have "take (nat len - 24) (drop 24 buf) = replicate (nat len - 24) 0"
    using assms by (simp add: bytes_at_def min_def split: if_splits)
  then show ?thesis
    using assms by (auto simp: probe_buf_inv_def probe_packet_eq put_def)
qed

lemma probe_step_packet:
  assumes "probe_buf_inv pktsize (p_buf p)"
  shows "fst (snd (probe_step pktsize delay warmup p ts)) = probe_header (p_id p) ts (p_seq p) @
    replicate (if p_seq p < warmup then 0 else nat pktsize - 24) 0"
proof -
  have "24 \<le> pktsize"
    using assms by (simp add: probe_buf_inv_def)
  then show ?thesis
    using probe_packet_bytes [OF assms, of 24] probe_packet_bytes [OF assms, of pktsize]
    by (simp add: probe_step_def Let_def)
qed

lemma probe_step_state:
  "p_seq (fst (probe_step pktsize delay warmup p ts)) = p_seq p + 1"
  "p_id (fst (probe_step pktsize delay warmup p ts)) = p_id p"
  "p_next (fst (probe_step pktsize delay warmup p ts)) = probe_advance delay (p_next p)"
  "probe_buf_inv pktsize (p_buf p) \<Longrightarrow> probe_buf_inv pktsize (p_buf (fst (probe_step pktsize delay warmup p ts)))"
  by (simp_all add: probe_step_def Let_def probe_packet_inv)

text \<open>The datagrams of a run, in closed form.\<close>

fun probe_datagrams :: "int \<Rightarrow> u32 \<Rightarrow> u32 \<Rightarrow> u32 \<Rightarrow> timespec list \<Rightarrow> byte list list" where
  "probe_datagrams pktsize warmup cid seq [] = []"
| "probe_datagrams pktsize warmup cid seq (t # ts) =
     (probe_header cid t seq @ replicate (if seq < warmup then 0 else nat pktsize - 24) 0)
       # probe_datagrams pktsize warmup cid (seq + 1) ts"

lemma probe_run_datagrams:
  "probe_buf_inv pktsize (p_buf p) \<Longrightarrow>
   snd (probe_run pktsize delay warmup p ts) = probe_datagrams pktsize warmup (p_id p) (p_seq p) ts"
proof (induction ts arbitrary: p)
  case Nil
  then show ?case by simp
next
  case (Cons t ts)
  let ?s = "probe_step pktsize delay warmup p t"
  from Cons.IH [of "fst ?s"] Cons.prems
  have "snd (probe_run pktsize delay warmup (fst ?s) ts)
      = probe_datagrams pktsize warmup (p_id p) (p_seq p + 1) ts"
    by (simp add: probe_step_state)
  then show ?case
    using probe_step_packet [OF Cons.prems, of delay warmup t]
    by (simp add: Let_def case_prod_beta)
qed

section \<open>The interval and the schedule\<close>

lemma interval_us_range:
  assumes "24 \<le> pktsize" "0 \<le> overhead" "pktsize + overhead \<le> 268435" "1 \<le> kbps"
  shows "interval_us pktsize overhead kbps = (pktsize + overhead) * 8000 div kbps"
    "0 \<le> (pktsize + overhead) * 8000 div kbps"
proof -
  let ?b = "(pktsize + overhead) * 8000"
  have "?b div kbps \<le> ?b div 1"
    using assms by (intro zdiv_mono2) auto
  moreover have "0 \<le> ?b div kbps"
    using assms by (simp add: pos_imp_zdiv_nonneg_iff)
  moreover have "?b sdiv kbps = ?b div kbps"
    using assms by (intro sdiv_nonneg) auto
  ultimately show "interval_us pktsize overhead kbps = ?b div kbps" "0 \<le> ?b div kbps"
    using assms by (simp_all add: interval_us_def in_s32_def s32_id)
qed

definition probe_room :: "int \<Rightarrow> nat \<Rightarrow> timespec \<Rightarrow> bool" where
  "probe_room delay k t \<longleftrightarrow> 0 \<le> delay \<and> delay \<le> 1000000000 \<and> 0 \<le> tv_nsec t \<and>
     tv_nsec t \<le> 1000000000 \<and> - (2 ^ 63) \<le> tv_sec t \<and> tv_sec t + int k < 2 ^ 63"

lemma probe_room_Suc:
  assumes "probe_room delay (Suc k) t"
  shows "nanos (probe_advance delay t) = nanos t + delay \<and> probe_room delay k (probe_advance delay t)"
proof -
  have "s64 (tv_nsec t + delay) = tv_nsec t + delay"
      "s64 (tv_nsec t + delay - 1000000000) = tv_nsec t + delay - 1000000000"
      "s64 (tv_sec t + 1) = tv_sec t + 1"
    using assms by (auto simp: probe_room_def in_s64_def intro!: s64_id)
  then show ?thesis
    using assms
    by (auto simp: probe_advance_def Let_def probe_room_def nanos_def TIMING_GIGA_def algebra_simps)
qed

interpretation pacing: ticker "probe_advance delay" "probe_room delay" delay for delay
  by unfold_locales (simp_all add: probe_room_Suc)

lemma probe_run_next:
  "p_next (fst (probe_run pktsize delay warmup p ts)) = (probe_advance delay ^^ length ts) (p_next p)"
proof (induction ts arbitrary: p)
  case Nil
  then show ?case by simp
next
  case (Cons t ts)
  from Cons.IH [of "fst (probe_step pktsize delay warmup p t)"] show ?case
    by (simp add: Let_def probe_step_state funpow_swap1 case_prod_beta)
qed

section \<open>Properties\<close>

text \<open>
  C20: what the sender puts on the wire. With a packet size between 24 and 65536 and a nonzero
  interval, the datagrams carry the same id, the time of each iteration and consecutive
  sequence numbers from 0; the first ones (as many as the warm-up counts) are the bare 24-byte
  header, all others are padded with zero bytes to the packet size, whatever was in the
  uninitialised buffer.
\<close>

theorem probe_datagrams_correct:
  assumes "24 \<le> pktsize" "pktsize \<le> 65536" "length junk = 65536"
    and "delay_ns pktsize overhead kbps \<noteq> 0"
  shows "probe pktsize kbps overhead junk now clock
    = Some (probe_datagrams pktsize
        (word_of_int (s64 (1000000000 sdiv delay_ns pktsize overhead kbps * 5))) (probe_id now) 0 clock)"
  using assms probe_run_datagrams [OF probe_start_buf [OF assms(1-3)]]
  by (simp add: probe_def Let_def packets_in_first_5_seconds_def probe_start_def)

theorem probe_datagrams_correct_witness:
  "\<exists>w. probe 140 30 32 (replicate 65536 7) \<lparr>tv_sec = 1, tv_nsec = 2\<rparr> [\<lparr>tv_sec = 3, tv_nsec = 4\<rparr>]
    = Some (probe_datagrams 140 w (probe_id \<lparr>tv_sec = 1, tv_nsec = 2\<rparr>) 0 [\<lparr>tv_sec = 3, tv_nsec = 4\<rparr>])"
proof -
  have "delay_ns 140 32 30 \<noteq> 0"
    by code_simp
  from probe_datagrams_correct [OF _ _ _ this, of "replicate 65536 7"] show ?thesis by auto
qed

end
