(* ===== verification/Ts_Measure.thy ===== *)
theory Ts_Measure
  imports Ts_Probe
begin

text \<open>
  The receiving parent of \<open>udp_ts_seq_reply probe\<close>: the parser of replies and the endless
  measuring loop. One iteration is \<open>measure_step\<close>: its inputs are what \<open>recvfrom\<close> returned
  and the clock readings, its outputs are the values handed to \<open>fprintf\<close>, line by line.
  The column widths of the text are not modelled.
\<close>

section \<open>Parsing a reply\<close>

text \<open>
  The reply buffer has type \<open>char\<close>, which is signed: each byte and each mask byte is sign
  extended to \<open>int\<close> before the exclusive or. The address is stored back into bytes; the
  port is computed on \<open>unsigned short\<close> values promoted to \<open>int\<close>.
\<close>

definition char_xor :: "byte \<Rightarrow> byte \<Rightarrow> 32 word" where
  "char_xor a m = scast a XOR scast m"

definition parse_ip :: "byte list \<Rightarrow> byte list" where
  "parse_ip buf = map2 (\<lambda>a m. ucast (char_xor a m)) (bytes_at 16 4 buf) IP_MASK"

definition parse_port :: "byte list \<Rightarrow> u16" where
  "parse_port buf =
     ucast (push_bit 8 (ucast (ucast (char_xor (buf ! 20) (PORT_MASK ! 0)) :: u16) :: 32 word)
            + ucast (ucast (char_xor (buf ! 21) (PORT_MASK ! 1)) :: u16))"

definition parse_time :: "byte list \<Rightarrow> nat \<Rightarrow> timespec" where
  "parse_time buf off =
     (let high = of_be32 (bytes_at off 4 buf);
          low = of_be32 (bytes_at (off + 4) 4 buf);
          nano = of_be32 (bytes_at (off + 8) 4 buf)
      in \<lparr>tv_sec = sint (push_bit 32 (ucast high :: u64) OR ucast low), tv_nsec = uint nano\<rparr>)"

record snapshot =
  ts1 :: timespec
  ts2 :: timespec
  ts3 :: timespec
  seq1 :: u32
  seq2 :: u32
  seq3 :: u32
  ip :: "byte list"
  port :: u16

definition parse_reply :: "byte list \<Rightarrow> snapshot \<Rightarrow> snapshot" where
  "parse_reply buf info = info\<lparr>
     ts2 := parse_time buf 0,
     seq2 := of_be32 (bytes_at 12 4 buf),
     ip := parse_ip buf,
     port := parse_port buf,
     ts1 := parse_time buf (22 + 8),
     seq1 := of_be32 (bytes_at (22 + 20) 4 buf)\<rparr>"

definition parse_id :: "byte list \<Rightarrow> u32" where
  "parse_id buf = of_le32 (bytes_at (22 + 0) 4 buf)"

section \<open>The loop\<close>

text \<open>One line of output per report, with the numbers in the order they are printed.\<close>

record report =
  r_time :: int
  r_loss_there :: int
  r_delay_there :: int
  r_loss_back :: int
  r_delay_back :: int
  r_info :: snapshot
  r_len :: nat
  r_id :: u32

datatype line = Clocks timespec timespec | Clogged int | OUTAGE | ERROR | Report report | NEW_PORT | NEW_IP

record measure_state =
  firstreport :: bool
  outage_reported :: bool
  info :: snapshot
  m_seq3 :: u32
  basets2 :: timespec
  minrtt :: u32
  previp :: "byte list"
  prevport :: u16
  m_buf :: "byte list"

datatype received = Timeout | Failed | Packet "byte list"

text \<open>\<open>check\<close> and \<open>now\<close> are the two monotonic clock readings of an iteration.\<close>

definition clog_lines :: "measure_state \<Rightarrow> timespec \<Rightarrow> line list" where
  "clog_lines m check =
     (if \<not> firstreport m then
        (let disc = timespec_milli (timespec_diff (ts3 (info m)) check)
         in if disc > 3 then [Clogged disc] else [])
      else [])"

definition new_basets2 :: "timespec \<Rightarrow> timespec \<Rightarrow> timespec" where
  "new_basets2 start d =
     (let b = start\<lparr>tv_sec := s64 (tv_sec start + tv_sec d), tv_nsec := s64 (tv_nsec start + tv_nsec d)\<rparr>
      in if tv_nsec b > 1000 * 1000 * 1000 then
           b\<lparr>tv_sec := s64 (tv_sec b + 1), tv_nsec := s64 (tv_nsec b - 1000 * 1000 * 1000)\<rparr>
         else b)"

definition address_lines :: "measure_state \<Rightarrow> snapshot \<Rightarrow> line list" where
  "address_lines m snap =
     (if previp m = ip snap then (if prevport m \<noteq> port snap then [NEW_PORT] else [])
      else if previp m = [0, 0, 0, 0] then [] else [NEW_IP])"

definition handle_reply ::
    "timespec \<Rightarrow> measure_state \<Rightarrow> byte list \<Rightarrow> timespec \<Rightarrow> measure_state \<times> line list" where
  "handle_reply start m dgram now =
     (let ret = length (take 65536 dgram);
          buf = put 0 (take 65536 dgram) (m_buf m);
          snap = (parse_reply buf ((info m)\<lparr>ts3 := now\<rparr>))\<lparr>seq3 := m_seq3 m\<rparr>;
          t = timespec_diff start (ts1 snap);
          cumseqloss_loc = uint (seq1 snap) - uint (seq3 snap);
          cumseqloss_rem = uint (seq2 snap) - uint (seq3 snap);
          rtt = timespec_milli (timespec_diff (ts1 snap) (ts3 snap));
          (minrtt', base') =
            (if uint (minrtt m) > rtt then
               (word_of_int rtt, new_basets2 start (timespec_diff (ts1 snap) (ts2 snap)))
             else (minrtt m, basets2 m));
          remote = timespec_diff base' (ts2 snap);
          remote_d = timespec_milli (timespec_diff t remote);
          half = uint (minrtt' div 2);
          rep = \<lparr>r_time = timespec_milli t,
                 r_loss_there = cumseqloss_loc - cumseqloss_rem,
                 r_delay_there = s64 (remote_d + half),
                 r_loss_back = cumseqloss_rem,
                 r_delay_back = s64 (s64 (rtt - remote_d) - half),
                 r_info = snap, r_len = ret, r_id = parse_id buf\<rparr>
      in (m\<lparr>firstreport := False, outage_reported := False, info := snap, m_seq3 := m_seq3 m + 1,
            basets2 := base', minrtt := minrtt', previp := ip snap, prevport := port snap,
            m_buf := buf\<rparr>,
          Report rep # address_lines m snap))"

definition measure_step ::
    "timespec \<Rightarrow> measure_state \<Rightarrow> timespec \<Rightarrow> received \<Rightarrow> timespec \<Rightarrow> measure_state \<times> line list" where
  "measure_step start m check recv now =
     (let clog = clog_lines m check in
      case recv of
        Timeout \<Rightarrow>
          (m\<lparr>outage_reported := True, info := (info m)\<lparr>ts3 := now\<rparr>\<rparr>,
           clog @ (if \<not> outage_reported m then [OUTAGE] else []))
      | Failed \<Rightarrow> (m\<lparr>info := (info m)\<lparr>ts3 := now\<rparr>\<rparr>, clog @ [ERROR])
      | Packet dgram \<Rightarrow>
          (let (m', ls) = handle_reply start m dgram now in (m', clog @ ls)))"

text \<open>\<open>junk\<close> is the uninitialised receive buffer, \<open>snap\<close> the uninitialised snapshot.\<close>

definition measure_start :: "byte list \<Rightarrow> snapshot \<Rightarrow> timespec \<Rightarrow> measure_state" where
  "measure_start junk snap now =
     \<lparr>firstreport = True, outage_reported = False, info = snap\<lparr>ts3 := now\<rparr>, m_seq3 = 0,
      basets2 = \<lparr>tv_sec = 0, tv_nsec = 0\<rparr>, minrtt = 0xFFFFFFFF, previp = [0, 0, 0, 0],
      prevport = 0, m_buf = junk\<rparr>"

fun measure_run ::
    "timespec \<Rightarrow> measure_state \<Rightarrow> (timespec \<times> received \<times> timespec) list \<Rightarrow> measure_state \<times> line list" where
  "measure_run start m [] = (m, [])"
| "measure_run start m ((check, recv, now) # evs) =
     (let (m1, ls1) = measure_step start m check recv now;
          (m2, ls2) = measure_run start m1 evs
      in (m2, ls1 @ ls2))"

text \<open>
  The whole function: it first prints both clocks, the second reading starts the snapshot.
\<close>

definition measure_loop ::
    "timespec \<Rightarrow> byte list \<Rightarrow> snapshot \<Rightarrow> timespec \<Rightarrow> timespec \<Rightarrow> (timespec \<times> received \<times> timespec) list
       \<Rightarrow> measure_state \<times> line list" where
  "measure_loop start junk snap realtime monotonic evs =
     (let (m, ls) = measure_run start (measure_start junk snap monotonic) evs
      in (m, Clocks realtime monotonic # ls))"

section \<open>Decoding what the server and the prober encoded\<close>

lemma sec_split: "push_bit 32 (ucast (ucast (drop_bit 32 w) :: u32) :: u64) OR ucast (ucast w :: u32) = w"
  for w :: u64
proof (rule bit_word_eqI)
  fix n :: nat
  assume "n < LENGTH(64)"
  then consider "n < 32" | "32 \<le> n \<and> n < 64"
    by fastforce
  then show "bit (push_bit 32 (ucast (ucast (drop_bit 32 w) :: u32) :: u64) OR ucast (ucast w :: u32)) n
      = bit w n"
    by cases (auto simp: bit_simps)
qed

lemma sec_high_drop: "sec_high ts = ucast (drop_bit 32 (word_of_int (tv_sec ts) :: u64))"
proof -
  have m: "(0xFFFFFFFF00000000 :: u64) = push_bit 32 (mask 32)"
    by (simp add: mask_eq_exp_minus_1 push_bit_eq_mult)
  show ?thesis
    unfolding sec_high_def m by (auto simp: bit_simps intro!: bit_word_eqI)
qed

lemma sec_low_take: "sec_low ts = ucast (word_of_int (tv_sec ts) :: u64)"
proof -
  have m: "(0x00000000FFFFFFFF :: u64) = mask 32"
    by (simp add: mask_eq_exp_minus_1)
  show ?thesis
    unfolding sec_low_def m by (auto simp: bit_simps intro!: bit_word_eqI)
qed

lemma sint_sec: "in_s64 s \<Longrightarrow> sint (word_of_int s :: u64) = s"
  by (simp add: in_s64_def sint_sbintrunc' signed_take_bit_int_eq_self_iff)

text \<open>A time as it travels: 12 bytes.\<close>

definition stamp :: "timespec \<Rightarrow> byte list" where
  "stamp ts = be32 (sec_high ts) @ be32 (sec_low ts) @ be32 (nsec32 ts)"

definition wire_time :: "timespec \<Rightarrow> bool" where
  "wire_time ts \<longleftrightarrow> in_s64 (tv_sec ts) \<and> ts_norm ts"

lemma length_stamp [simp]: "length (stamp ts) = 12"
  by (simp add: stamp_def)

lemma parse_time_stamp:
  assumes "wire_time ts" "bytes_at off 12 buf = stamp ts"
  shows "parse_time buf off = ts"
proof -
  have *: "bytes_at (off + k) 4 buf = bytes_at k 4 (stamp ts)" if "k \<le> 8" for k
    using that assms(2) [symmetric] by (simp add: bytes_at_def drop_take min_def add.commute)
  have h: "bytes_at off 4 buf = be32 (sec_high ts)" "bytes_at (off + 4) 4 buf = be32 (sec_low ts)"
      "bytes_at (off + 8) 4 buf = be32 (nsec32 ts)"
    using * [of 0] * [of 4] * [of 8] by (simp_all add: stamp_def bytes_at_def)
  have "uint (word_of_int (tv_nsec ts) :: u32) = tv_nsec ts"
    using assms(1) by (auto simp: wire_time_def ts_norm_def TIMING_GIGA_def uint_word_of_int)
  then show ?thesis
    using assms(1)
    by (simp add: parse_time_def Let_def h codec_simps sec_high_drop sec_low_take sec_split sint_sec
        nsec32_def wire_time_def)
qed

lemma char_xor_byte: "(ucast (char_xor a m) :: byte) = a XOR m"
  by (auto simp: char_xor_def bit_simps intro!: bit_word_eqI)

lemma char_xor_masked: "(ucast (char_xor (a XOR m) m) :: u16) = scast a"
  by (auto simp: char_xor_def bit_simps intro!: bit_word_eqI)

lemma ucast_add_16: "(ucast (a + b :: 32 word) :: u16) = ucast a + ucast b"
  by (simp add: word_eq_iff_unsigned [where ?'a = int] unsigned_ucast_eq uint_word_ariths
      take_bit_eq_mod mod_mod_cancel) (simp add: mod_add_eq)

lemma scast_byte_bit:
  assumes "bit (b :: byte) 7" "n < 16"
  shows "bit (ucast b OR push_bit 8 (mask 8) :: u16) n = bit (scast b :: u16) n"
proof -
  consider "n < 7" | "n = 7" | "8 \<le> n" by linarith
  then show ?thesis
  proof cases
    case 3
    then have "n - 8 < 8" using assms by linarith
    with 3 show ?thesis using assms by (simp add: bit_simps min_def)
  qed (use assms in \<open>simp_all add: bit_simps\<close>)
qed

lemma scast_byte_bit_clear:
  assumes "\<not> bit (b :: byte) 7" "n < 16"
  shows "bit (scast b :: u16) n = bit (ucast b :: u16) n"
proof -
  consider "n < 7" | "n = 7" | "8 \<le> n" by linarith
  then show ?thesis
    by cases (use assms in \<open>simp_all add: bit_simps min_def\<close>)
qed

lemma scast_byte_16:
  "(scast (b :: byte) :: u16) = ucast b + (if bit b 7 then - 256 else 0)"
proof -
  have m: "(- 256 :: u16) = push_bit 8 (mask 8)"
    by (simp add: mask_eq_exp_minus_1 push_bit_eq_mult)
  have "(ucast b :: u16) + push_bit 8 (mask 8) = ucast b OR push_bit 8 (mask 8)"
    by (rule disjunctive_add_eq_or) (auto simp: bit_simps intro!: bit_word_eqI)
  also have "bit b 7 \<Longrightarrow> \<dots> = scast b"
    by (rule bit_word_eqI) (rule scast_byte_bit, simp_all)
  finally have "bit b 7 \<Longrightarrow> ?thesis"
    by (simp only: m if_True)
  moreover have "\<not> bit b 7 \<Longrightarrow> (scast b :: u16) = ucast b"
    by (rule bit_word_eqI) (rule scast_byte_bit_clear, simp_all)
  ultimately show ?thesis by auto
qed

lemma port_bytes_add: "push_bit 8 (ucast (ucast (drop_bit 8 p) :: byte) :: u16) + ucast (ucast p :: byte) = p"
proof -
  have "push_bit 8 (ucast (ucast (drop_bit 8 p) :: byte) :: u16) + ucast (ucast p :: byte)
      = push_bit 8 (ucast (ucast (drop_bit 8 p) :: byte)) OR ucast (ucast p :: byte)"
    by (rule disjunctive_add_eq_or) (auto simp: bit_simps intro!: bit_word_eqI)
  also have "\<dots> = p"
    using of_be16_be16 [of p] by (simp add: be16_def of_be16_def)
  finally show ?thesis .
qed

text \<open>
  The port that \<open>measure\<close> prints: the sign extension of the low byte borrows from the high
  byte, so every port whose low byte is 128 or more comes out 256 too small.
\<close>

definition printed_port :: "u16 \<Rightarrow> u16" where
  "printed_port p = (if bit p 7 then p - 256 else p)"

lemma parse_port_masked:
  assumes "buf ! 20 = ucast (drop_bit 8 p) XOR 0x88" "buf ! 21 = ucast p XOR 0x99"
  shows "parse_port buf = printed_port p"
proof -
  have x: "(ucast (char_xor (buf ! 20) (PORT_MASK ! 0)) :: u16) = scast (ucast (drop_bit 8 p) :: byte)"
      "(ucast (char_xor (buf ! 21) (PORT_MASK ! 1)) :: u16) = scast (ucast p :: byte)"
    using assms char_xor_masked by (simp_all add: PORT_MASK_def)
  have hi: "(ucast (push_bit 8 (ucast w :: 32 word)) :: u16) = push_bit 8 w" for w :: u16
    by (auto simp: bit_simps intro!: bit_word_eqI)
  have lo: "(ucast (ucast w :: 32 word) :: u16) = w" for w :: u16
    by (auto simp: bit_simps intro!: bit_word_eqI)
  have sh: "push_bit 8 (scast b :: u16) = push_bit 8 (ucast b)" for b :: byte
    by (auto simp: bit_simps intro!: bit_word_eqI)
  have "parse_port buf = push_bit 8 (scast (ucast (drop_bit 8 p) :: byte)) + scast (ucast p :: byte)"
    by (simp only: parse_port_def x ucast_add_16 hi lo)
  also have "\<dots> = p + (if bit p 7 then - 256 else 0)"
    unfolding sh scast_byte_16 [of "ucast p"] add.assoc [symmetric] port_bytes_add by (simp add: bit_simps)
  finally show ?thesis
    by (simp add: printed_port_def)
qed

section \<open>A reply to a probe, parsed\<close>

definition probe_reply :: "timespec \<Rightarrow> u32 \<Rightarrow> sockaddr_in \<Rightarrow> u32 \<Rightarrow> timespec \<Rightarrow> u32 \<Rightarrow> byte list \<Rightarrow> byte list" where
  "probe_reply t2 s2 sa cid t1 s1 pad =
     reply_header t2 s2 @ reply_address sa @ probe_header cid t1 s1 @ pad"

lemma xor_mask_cancel: "((a :: byte) XOR m) XOR m = a"
  by (simp add: xor.assoc)

lemma parse_reply_probe:
  assumes "wire_time t1" "wire_time t2" "sin_family sa = AF_INET"
    and "buf = put 0 (probe_reply t2 s2 sa cid t1 s1 pad) junk"
  shows "parse_reply buf snap = snap\<lparr>ts2 := t2, seq2 := s2, ip := be32 (sin_addr sa),
      port := printed_port (sin_port sa), ts1 := t1, seq1 := s1\<rparr>"
    and "parse_id buf = cid"
proof -
  note defs = probe_reply_def reply_header_def reply_address_def probe_header_def bytes_at_def
  have "bytes_at 0 12 buf = stamp t2" "bytes_at 30 12 buf = stamp t1"
      "bytes_at 12 4 buf = be32 s2" "bytes_at 42 4 buf = be32 s1" "bytes_at 22 4 buf = le32 cid"
      "bytes_at 16 4 buf = map2 (XOR) (be32 (sin_addr sa)) IP_MASK"
    using assms(3) by (simp_all add: assms(4) put_def defs stamp_def)
  moreover have "parse_port buf = printed_port (sin_port sa)"
  proof (rule parse_port_masked)
    have "bytes_at 20 2 buf = [ucast (drop_bit 8 (sin_port sa)) XOR 0x88, ucast (sin_port sa) XOR 0x99]"
      using assms(3) by (simp add: assms(4) put_def defs be16_def PORT_MASK_def)
    moreover have "20 \<le> length buf"
      by (simp add: assms(4) put_def defs)
    then have "bytes_at 20 2 buf ! 0 = buf ! 20" "bytes_at 20 2 buf ! 1 = buf ! 21"
      using nth_bytes_at [of 20 buf _ 2] by simp_all
    ultimately show "buf ! 20 = ucast (drop_bit 8 (sin_port sa)) XOR 0x88"
        "buf ! 21 = ucast (sin_port sa) XOR 0x99"
      by simp_all
  qed
  moreover have "map2 (\<lambda>a m. ucast (char_xor a m)) (map2 (XOR) (be32 a) IP_MASK) IP_MASK = be32 a" for a
    by (simp add: be32_def IP_MASK_def char_xor_byte xor_mask_cancel)
  ultimately show "parse_reply buf snap = snap\<lparr>ts2 := t2, seq2 := s2, ip := be32 (sin_addr sa),
      port := printed_port (sin_port sa), ts1 := t1, seq1 := s1\<rparr>" "parse_id buf = cid"
    using assms(1,2) by (simp_all add: parse_reply_def parse_id_def parse_ip_def parse_time_stamp codec_simps)
qed

section \<open>Outages, delays and address changes\<close>

lemma handle_reply_no_outage [simp]: "count_list (snd (handle_reply start m d now)) OUTAGE = 0"
  by (auto simp: handle_reply_def address_lines_def Let_def count_list_0_iff)

lemma clog_no_outage [simp]: "count_list (clog_lines m check) OUTAGE = 0"
  by (simp add: clog_lines_def Let_def)

lemma handle_reply_flags [simp]: "\<not> outage_reported (fst (handle_reply start m d now))"
  by (simp add: handle_reply_def Let_def)

text \<open>The outages in what \<open>recvfrom\<close> returns: timeouts with no packet since the last one.\<close>

fun outages :: "bool \<Rightarrow> received list \<Rightarrow> nat" where
  "outages known [] = 0"
| "outages known (Timeout # rs) = (if known then 0 else 1) + outages True rs"
| "outages known (Failed # rs) = outages known rs"
| "outages known (Packet d # rs) = outages False rs"

lemma measure_run_outages:
  "count_list (snd (measure_run start m evs)) OUTAGE = outages (outage_reported m) (map (\<lambda>(c, r, n). r) evs)"
proof (induction start m evs rule: measure_run.induct)
  case (1 start m)
  then show ?case by simp
next
  case (2 start m check recv now evs)
  let ?s = "measure_step start m check recv now"
  have "count_list (snd ?s) OUTAGE + outages (outage_reported (fst ?s)) rs
      = outages (outage_reported m) (recv # rs)" for rs
    by (cases recv) (simp_all add: measure_step_def Let_def case_prod_beta)
  with "2.IH" [OF refl prod.collapse] show ?case
    by (simp add: Let_def case_prod_beta)
qed

lemma s64_cong: "s64 x = s64 y \<longleftrightarrow> x mod 2 ^ 64 = y mod 2 ^ 64"
  by (simp add: s64_def signed_take_bit_eq_iff_take_bit_eq take_bit_eq_mod)

lemma s64_mod: "s64 x mod 2 ^ 64 = x mod 2 ^ 64"
  using s64_cong [of "s64 x" x] s64_id [OF s64_range] by simp

lemma s64_sum: "s64 (s64 x + s64 (s64 y - z)) = s64 (x + (y - z))"
proof -
  have "(s64 x + s64 (s64 y - z)) mod 2 ^ 64 = (x + (y - z)) mod 2 ^ 64"
    using s64_mod by (metis (no_types, opaque_lifting) mod_add_eq mod_diff_eq)
  then show ?thesis by (simp only: s64_cong)
qed

section \<open>Properties\<close>

text \<open>
  C24: the two one-way delays of a report always add up to the round trip time: whatever the
  clocks are, the delay there plus the delay back is the time from sending the probe to
  receiving its reply, in milliseconds.
\<close>

theorem report_delays_sum:
  "\<exists>r ls. snd (handle_reply start m dgram now) = Report r # ls \<and>
     s64 (r_delay_there r + r_delay_back r)
       = s64 (timespec_milli (timespec_diff (ts1 (r_info r)) now))"
proof -
  define out where "out = handle_reply start m dgram now"
  obtain r ls rd h where r: "snd out = Report r # ls"
      "r_delay_there r = s64 (rd + h)" "ts3 (r_info r) = now"
      "r_delay_back r = s64 (s64 (timespec_milli (timespec_diff (ts1 (r_info r)) (ts3 (r_info r))) - rd) - h)"
    unfolding out_def handle_reply_def by (simp add: Let_def case_prod_beta parse_reply_def)
  then have "s64 (r_delay_there r + r_delay_back r)
      = s64 (timespec_milli (timespec_diff (ts1 (r_info r)) now))"
    by (simp add: s64_sum)
  with r(1) show ?thesis by (auto simp: out_def)
qed

text \<open>
  C25: every outage is reported exactly once. In any run the number of OUTAGE lines is the
  number of receive timeouts that are the first since the start or since the last packet;
  other receive errors neither start nor end an outage.
\<close>

theorem outage_reported_once:
  "count_list (snd (measure_run start (measure_start junk snap t0) evs)) OUTAGE
     = outages False (map (\<lambda>(c, r, n). r) evs)"
  by (simp add: measure_run_outages measure_start_def)


text \<open>
  C27: the port that is printed is wrong for half of all ports. Decoding the masked port of a
  reply gives the client's port exactly when the low byte of the port is below 128; otherwise
  the sign extension of that byte makes the result 256 too small.
\<close>

theorem measured_port:
  assumes "bytes_at 20 2 buf = map2 (XOR) (be16 p) PORT_MASK" "22 \<le> length buf"
  shows "parse_port buf = (if bit p 7 then p - 256 else p) \<and> (parse_port buf = p \<longleftrightarrow> \<not> bit p 7)"
proof -
  have "bytes_at 20 2 buf ! 0 = buf ! 20" "bytes_at 20 2 buf ! 1 = buf ! 21"
    using nth_bytes_at [of 20 buf _ 2] assms(2) by simp_all
  then have "parse_port buf = printed_port p"
    using assms(1) by (intro parse_port_masked) (simp_all add: be16_def PORT_MASK_def)
  then show ?thesis
    by (simp add: printed_port_def)
qed

theorem measured_port_witness:
  "parse_port (replicate 20 0 @ map2 (XOR) (be16 1919) PORT_MASK) = 1919 \<and>
   parse_port (replicate 20 0 @ map2 (XOR) (be16 5000) PORT_MASK) = 4744"
proof -
  have "parse_port (replicate 20 0 @ map2 (XOR) (be16 p) PORT_MASK) = (if bit p 7 then p - 256 else p)" for p
    by (rule measured_port [THEN conjunct1]) (simp_all add: bytes_at_def)
  then show ?thesis by simp
qed

end
