(* ===== verification/Ts_Session.thy ===== *)
theory Ts_Session
  imports Ts_Measure
begin

text \<open>
  The three parts of \<open>udp_ts_seq_reply\<close> together: the sending child, the server and the
  measuring parent, connected by a network that may lose a probe on the way there or its
  reply on the way back. One \<open>exchange\<close> is one iteration of the sender and what the network
  made of its packet.
\<close>

section \<open>The composed system\<close>

record exchange =
  sent_at :: timespec
  served_at :: timespec
  check_at :: timespec
  got_at :: timespec
  up :: bool
  down :: bool

record session =
  prober :: probe_state
  srv :: server
  meter :: measure_state

definition exchange_step ::
    "int \<Rightarrow> int \<Rightarrow> u32 \<Rightarrow> timespec \<Rightarrow> sockaddr_in \<Rightarrow> session \<Rightarrow> exchange \<Rightarrow> session \<times> line list" where
  "exchange_step pktsize delay warmup start sa s x =
     (let (p1, d, _) = probe_step pktsize delay warmup (prober s) (sent_at x);
          s1 = s\<lparr>prober := p1\<rparr>
      in if \<not> up x then (s1, [])
         else
           (let (srv1, sent) = serve1 (srv s) (Some (d, sa)) (served_at x);
                s2 = s1\<lparr>srv := srv1\<rparr>
            in case sent of None \<Rightarrow> (s2, [])
               | Some (reply, _) \<Rightarrow>
                   if \<not> down x then (s2, [])
                   else
                     (let (m1, ls) = measure_step start (meter s) (check_at x) (Packet reply) (got_at x)
                      in (s2\<lparr>meter := m1\<rparr>, ls))))"

fun session_run ::
    "int \<Rightarrow> int \<Rightarrow> u32 \<Rightarrow> timespec \<Rightarrow> sockaddr_in \<Rightarrow> session \<Rightarrow> exchange list \<Rightarrow> line list" where
  "session_run pktsize delay warmup start sa s [] = []"
| "session_run pktsize delay warmup start sa s (x # xs) =
     (let (s1, ls) = exchange_step pktsize delay warmup start sa s x
      in ls @ session_run pktsize delay warmup start sa s1 xs)"

fun reports :: "line list \<Rightarrow> report list" where
  "reports [] = []"
| "reports (Report r # ls) = r # reports ls"
| "reports (_ # ls) = reports ls"

text \<open>The losses a reader should see with each report: probes lost so far, replies lost so far.\<close>

fun losses :: "nat \<Rightarrow> nat \<Rightarrow> exchange list \<Rightarrow> (int \<times> int) list" where
  "losses lu ld [] = []"
| "losses lu ld (x # xs) =
     (if \<not> up x then losses (Suc lu) ld xs
      else if \<not> down x then losses lu (Suc ld) xs
      else (int lu, int ld) # losses lu ld xs)"

section \<open>One step of each part\<close>

lemma reports_append [simp]: "reports (xs @ ys) = reports xs @ reports ys"
  by (induction xs rule: reports.induct) auto

lemma reports_clog [simp]: "reports (clog_lines m c) = []"
  by (simp add: clog_lines_def Let_def)

lemma reports_address [simp]: "reports (address_lines m i) = []"
  by (simp add: address_lines_def)

lemma request_id_probe: "request_id (probe_header cid t s @ pad) = cid"
  by (simp add: request_id_def probe_header_def bytes_at_def codec_simps)

lemma is_newproto_probe: "is_newproto (probe_header cid t s @ pad)"
  by (simp add: is_newproto_def probe_header_def bytes_at_def)

lemma take_probe: "24 \<le> n \<Longrightarrow> take n (probe_header cid t s @ pad)
    = probe_header cid t s @ take (n - 24) pad"
  by simp

lemma serve1_probe:
  assumes "tracks st cid c"
  shows "snd (serve1 st (Some (probe_header cid t s @ pad, sa)) ts)
    = Some (probe_reply ts (of_nat (client_number c ts)) sa cid t s (take 65490 pad), sa)"
    and "tracks (fst (serve1 st (Some (probe_header cid t s @ pad, sa)) ts)) cid
      (Some (Suc (client_number c ts), ts))"
  using tracks_number [OF assms] tracks_step [OF assms, of "probe_header cid t s @ pad" sa ts]
  by (simp_all add: serve1_closed [OF refl] take_probe request_id_probe is_newproto_probe
      Let_def probe_reply_def del: take_append)

lemma handle_probe_reply:
  assumes "wire_time t1" "wire_time t2" "sin_family sa = AF_INET" "length pad \<le> 65490"
  shows "\<exists>r. snd (handle_reply start m (probe_reply t2 s2 sa cid t1 s1 pad) now)
        = Report r # address_lines m (r_info r) \<and>
      r_loss_there r = uint s1 - uint s2 \<and> r_loss_back r = uint s2 - uint (m_seq3 m) \<and>
      r_info r = (info m)\<lparr>ts1 := t1, ts2 := t2, ts3 := now, seq1 := s1, seq2 := s2,
        seq3 := m_seq3 m, ip := be32 (sin_addr sa), port := printed_port (sin_port sa)\<rparr> \<and>
      r_id r = cid"
    and "m_seq3 (fst (handle_reply start m (probe_reply t2 s2 sa cid t1 s1 pad) now)) = m_seq3 m + 1"
proof -
  let ?d = "probe_reply t2 s2 sa cid t1 s1 pad"
  have "length ?d \<le> 65536"
    using assms(4) by (simp add: probe_reply_def)
  then have "take 65536 ?d = ?d"
    by simp
  note parsed = parse_reply_probe [OF assms(1,2,3) refl]
  show "\<exists>r. snd (handle_reply start m ?d now) = Report r # address_lines m (r_info r) \<and>
      r_loss_there r = uint s1 - uint s2 \<and> r_loss_back r = uint s2 - uint (m_seq3 m) \<and>
      r_info r = (info m)\<lparr>ts1 := t1, ts2 := t2, ts3 := now, seq1 := s1, seq2 := s2,
        seq3 := m_seq3 m, ip := be32 (sin_addr sa), port := printed_port (sin_port sa)\<rparr> \<and>
      r_id r = cid"
    unfolding handle_reply_def \<open>take 65536 ?d = ?d\<close> by (simp add: Let_def parsed)
  show "m_seq3 (fst (handle_reply start m ?d now)) = m_seq3 m + 1"
    unfolding handle_reply_def \<open>take 65536 ?d = ?d\<close> by (simp add: Let_def parsed)
qed

section \<open>A session with losses\<close>

text \<open>
  The state of a session after \<open>a\<close> probes, of which \<open>b\<close> reached the server and \<open>c\<close> came
  back: all three counters are determined, and so is what the server knows of the client.
\<close>

definition session_inv ::
    "int \<Rightarrow> u32 \<Rightarrow> nat \<Rightarrow> nat \<Rightarrow> nat \<Rightarrow> timespec option \<Rightarrow> session \<Rightarrow> bool" where
  "session_inv pktsize cid a b c prev s \<longleftrightarrow>
     probe_buf_inv pktsize (p_buf (prober s)) \<and> p_id (prober s) = cid \<and>
     p_seq (prober s) = of_nat a \<and> m_seq3 (meter s) = of_nat c \<and>
     tracks (srv s) cid (case prev of None \<Rightarrow> None | Some t \<Rightarrow> Some (b, t)) \<and> (prev = None \<longrightarrow> b = 0)"

definition gap_ok :: "timespec option \<Rightarrow> timespec \<Rightarrow> bool" where
  "gap_ok prev t \<longleftrightarrow> (case prev of None \<Rightarrow> True | Some s \<Rightarrow> tv_sec (timespec_diff s t) \<le> 60)"

fun steady :: "timespec option \<Rightarrow> exchange list \<Rightarrow> bool" where
  "steady prev [] \<longleftrightarrow> True"
| "steady prev (x # xs) \<longleftrightarrow> wire_time (sent_at x) \<and> wire_time (served_at x) \<and>
     (if up x then gap_ok prev (served_at x) \<and> steady (Some (served_at x)) xs else steady prev xs)"

lemma exchange_step_lost:
  assumes "session_inv pktsize cid a b c prev s" "\<not> up x"
  shows "session_inv pktsize cid (Suc a) b c prev (fst (exchange_step pktsize delay warmup start sa s x))"
    and "snd (exchange_step pktsize delay warmup start sa s x) = []"
  using assms
  by (auto simp: exchange_step_def session_inv_def Let_def case_prod_beta probe_step_state add.commute)

lemma probe_step_pad:
  assumes "session_inv pktsize cid a b c prev s"
  obtains pad where "fst (snd (probe_step pktsize delay warmup (prober s) t))
    = probe_header cid t (of_nat a) @ pad"
  using probe_step_packet [of pktsize "prober s" delay warmup t] assms
  by (auto simp: session_inv_def)

lemma session_number:
  assumes "session_inv pktsize cid a b c prev s" "gap_ok prev t"
  shows "client_number (case prev of None \<Rightarrow> None | Some u \<Rightarrow> Some (b, u)) t = b"
  using assms by (auto simp: session_inv_def gap_ok_def client_number_def split: option.splits)

lemma exchange_step_served:
  fixes delay :: int and warmup :: u32 and start :: timespec
  assumes inv: "session_inv pktsize cid a b c prev s" and x: "up x" "gap_ok prev (served_at x)"
    and w: "wire_time (sent_at x)" "wire_time (served_at x)" "sin_family sa = AF_INET"
  defines "r \<equiv> exchange_step pktsize delay warmup start sa s x"
  shows "\<not> down x \<Longrightarrow> session_inv pktsize cid (Suc a) (Suc b) c (Some (served_at x)) (fst r) \<and> snd r = []"
    and "down x \<Longrightarrow> session_inv pktsize cid (Suc a) (Suc b) (Suc c) (Some (served_at x)) (fst r) \<and>
      (\<exists>rep. reports (snd r) = [rep] \<and>
         r_loss_there rep = uint (of_nat a :: u32) - uint (of_nat b :: u32) \<and>
         r_loss_back rep = uint (of_nat b :: u32) - uint (of_nat c :: u32))"
proof -
  let ?t1 = "sent_at x" and ?t2 = "served_at x"
  let ?st = "probe_step pktsize delay warmup (prober s) ?t1"
  obtain pad where pad: "fst (snd ?st) = probe_header cid ?t1 (of_nat a) @ pad"
    using probe_step_pad [OF inv] by blast
  have tr: "tracks (srv s) cid (case prev of None \<Rightarrow> None | Some u \<Rightarrow> Some (b, u))"
    using inv by (simp add: session_inv_def)
  note served = serve1_probe [OF tr, where pad = pad and t = ?t1 and s = "of_nat a" and sa = sa
      and ts = ?t2, unfolded session_number [OF inv x(2)]]
  have st: "probe_buf_inv pktsize (p_buf (fst ?st))" "p_id (fst ?st) = cid" "p_seq (fst ?st) = of_nat (Suc a)"
    using inv by (simp_all add: session_inv_def probe_step_state add.commute)
  have c: "m_seq3 (meter s) = of_nat c"
    using inv by (simp add: session_inv_def)
  note reply = handle_probe_reply [OF w(1,2,3), of "take 65490 pad", simplified, of start "meter s"
      "of_nat b" cid "of_nat a" "got_at x"]
  show "\<not> down x \<Longrightarrow> session_inv pktsize cid (Suc a) (Suc b) c (Some ?t2) (fst r) \<and> snd r = []"
    using x(1) served st c
    by (simp add: r_def exchange_step_def Let_def case_prod_beta pad session_inv_def)
  show "down x \<Longrightarrow> session_inv pktsize cid (Suc a) (Suc b) (Suc c) (Some ?t2) (fst r) \<and>
      (\<exists>rep. reports (snd r) = [rep] \<and>
         r_loss_there rep = uint (of_nat a :: u32) - uint (of_nat b :: u32) \<and>
         r_loss_back rep = uint (of_nat b :: u32) - uint (of_nat c :: u32))"
    using x(1) served st c reply
    by (auto simp: r_def exchange_step_def Let_def case_prod_beta pad session_inv_def
        measure_step_def add.commute)
qed

lemma uint_of_nat_small: "n < 2 ^ 32 \<Longrightarrow> uint (of_nat n :: u32) = int n"
  by (simp add: uint_nat unat_of_nat)

lemma session_losses:
  assumes "session_inv pktsize cid a b c prev s" "steady prev xs" "sin_family sa = AF_INET"
    and "b \<le> a" "c \<le> b" "a + length xs < 2 ^ 32"
  shows "map (\<lambda>r. (r_loss_there r, r_loss_back r))
      (reports (session_run pktsize delay warmup start sa s xs)) = losses (a - b) (b - c) xs"
  using assms
proof (induction xs arbitrary: a b c prev s)
  case Nil
  then show ?case by simp
next
  case (Cons x xs)
  let ?r = "exchange_step pktsize delay warmup start sa s x"
  have w: "wire_time (sent_at x)" "wire_time (served_at x)"
    using Cons.prems(2) by simp_all
  have n: "a < 2 ^ 32" "b < 2 ^ 32" "c < 2 ^ 32"
    using Cons.prems(4-6) by simp_all
  show ?case
  proof (cases "up x")
    case False
    note lost = exchange_step_lost [OF Cons.prems(1) False]
    from Cons.IH [OF lost(1)] Cons.prems False lost(2) show ?thesis
      by (simp add: Let_def case_prod_beta Suc_diff_le)
  next
    case True
    then have g: "gap_ok prev (served_at x)" "steady (Some (served_at x)) xs"
      using Cons.prems(2) by simp_all
    note served = exchange_step_served [OF Cons.prems(1) True g(1) w Cons.prems(3),
        of delay warmup start]
    show ?thesis
    proof (cases "down x")
      case False
      from Cons.IH [OF conjunct1 [OF served(1) [OF False]] g(2)] Cons.prems True False served(1) [OF False]
      show ?thesis by (simp add: Let_def case_prod_beta Suc_diff_le)
    next
      case d: True
      obtain rep where "reports (snd ?r) = [rep]" "r_loss_there rep = int a - int b"
          "r_loss_back rep = int b - int c"
        using served(2) [OF d] n by (auto simp: uint_of_nat_small)
      with Cons.IH [OF conjunct1 [OF served(2) [OF d]] g(2)] Cons.prems True d
      show ?thesis by (simp add: Let_def case_prod_beta of_nat_diff)
    qed
  qed
qed

section \<open>Properties\<close>

definition session_start :: "int \<Rightarrow> byte list \<Rightarrow> timespec \<Rightarrow> server \<Rightarrow> measure_state \<Rightarrow> session" where
  "session_start pktsize junk now server0 meter0 =
     \<lparr>prober = probe_start pktsize junk now, srv = server0, meter = meter0\<rparr>"

lemma session_start_inv:
  assumes "24 \<le> pktsize" "pktsize \<le> 65536" "length junk = 65536"
    and "lastseens server0 (probe_id now) = None" "m_seq3 meter0 = 0"
  shows "session_inv pktsize (probe_id now) 0 0 0 None (session_start pktsize junk now server0 meter0)"
  using assms probe_start_buf [OF assms(1-3)]
  by (auto simp: session_inv_def session_start_def probe_start_def tracks_def)

text \<open>
  C2: the measured losses are the real losses. Let prober, server and measuring loop run
  together over a network that loses any of the probes and any of the replies, the server
  having served any other clients before. If fewer than \<open>2 ^ 32\<close> probes are sent and the
  server sees this client at least every 60 seconds, then the first loss column of each report
  is the number of probes lost so far and the second one the number of replies lost so far.
\<close>

theorem measured_losses_correct:
  assumes "24 \<le> pktsize" "pktsize \<le> 65536" "length junk = 65536"
    and "lastseens server0 (probe_id now) = None" "m_seq3 meter0 = 0"
    and "steady None xs" "sin_family sa = AF_INET" "length xs < 2 ^ 32"
  shows "map (\<lambda>r. (r_loss_there r, r_loss_back r))
      (reports (session_run pktsize delay warmup start sa (session_start pktsize junk now server0 meter0) xs))
    = losses 0 0 xs"
  using session_losses [OF session_start_inv [OF assms(1-5)] assms(6,7)] assms(8) by simp

theorem measured_losses_correct_witness:
  "\<exists>sa junk m t0. map (\<lambda>r. (r_loss_there r, r_loss_back r))
      (reports (session_run 140 45866000 0 t0 sa (session_start 140 junk t0 init_server m)
        [\<lparr>sent_at = t0, served_at = t0, check_at = t0, got_at = t0, up = False, down = False\<rparr>,
         \<lparr>sent_at = t0, served_at = t0, check_at = t0, got_at = t0, up = True, down = False\<rparr>,
         \<lparr>sent_at = t0, served_at = t0, check_at = t0, got_at = t0, up = True, down = True\<rparr>]))
    = [(1, 1)]"
proof -
  let ?t = "\<lparr>tv_sec = 9, tv_nsec = 5\<rparr>"
  let ?x = "\<lambda>u d. \<lparr>sent_at = ?t, served_at = ?t, check_at = ?t, got_at = ?t, up = u, down = d\<rparr>"
  let ?xs = "[?x False False, ?x True False, ?x True True]"
  let ?m = "measure_start [] \<lparr>ts1 = ?t, ts2 = ?t, ts3 = ?t, seq1 = 0, seq2 = 0, seq3 = 0, ip = [], port = 0\<rparr> ?t"
  let ?sa = "\<lparr>sin_family = AF_INET, sin_addr = 1, sin_port = 2\<rparr>"
  have "wire_time ?t"
    by (simp add: wire_time_def in_s64_def ts_norm_def TIMING_GIGA_def)
  moreover have "gap_ok (Some ?t) ?t" "gap_ok None ?t"
    by (simp_all add: gap_ok_def timespec_diff_def s64_def)
  ultimately have "steady None ?xs"
    by simp
  then have "map (\<lambda>r. (r_loss_there r, r_loss_back r))
      (reports (session_run 140 45866000 0 ?t ?sa (session_start 140 (replicate 65536 0) ?t init_server ?m) ?xs))
    = losses 0 0 ?xs"
    by (intro measured_losses_correct) (simp_all add: init_server_def measure_start_def)
  then show ?thesis
    by (intro exI [of _ ?sa] exI [of _ "replicate 65536 0"] exI [of _ ?m] exI [of _ ?t])
      (simp del: session_run.simps)
qed

text \<open>
  C4: the round trip of one probe through all three programs. The packet of any iteration of the
  sender, answered by a server in any state and received by the measuring loop in any state, is
  reported once, and the report has the sender's id, time and sequence number, the time and the
  sequence number of the server, the number of replies received before, and the client's address, as they were
  put in. The port is the exception: it comes out unchanged when its low byte is below 128 and 256
  too small otherwise, because of a sign extension.
\<close>

theorem probe_roundtrip:
  assumes "probe_buf_inv pktsize (p_buf p)" "wire_time t1" "wire_time t2" "sin_family sa = AF_INET"
  shows "\<exists>reply r. snd (serve1 st (Some (fst (snd (probe_step pktsize delay warmup p t1)), sa)) t2)
        = Some (reply, sa) \<and>
      reports (snd (measure_step start m check (Packet reply) now)) = [r] \<and> r_id r = p_id p \<and>
      r_info r = (info m)\<lparr>ts1 := t1, seq1 := p_seq p, ts2 := t2,
        seq2 := map_at (seqs (reset_if_stale st (p_id p) t2)) (p_id p), ts3 := now, seq3 := m_seq3 m,
        ip := be32 (sin_addr sa),
        port := (if bit (sin_port sa) 7 then sin_port sa - 256 else sin_port sa)\<rparr>"
proof -
  obtain pad where pad: "fst (snd (probe_step pktsize delay warmup p t1))
      = probe_header (p_id p) t1 (p_seq p) @ pad"
    using probe_step_packet [OF assms(1)] by blast
  let ?s2 = "map_at (seqs (reset_if_stale st (p_id p) t2)) (p_id p)"
  let ?reply = "probe_reply t2 ?s2 sa (p_id p) t1 (p_seq p) (take 65490 pad)"
  have "snd (serve1 st (Some (probe_header (p_id p) t1 (p_seq p) @ pad, sa)) t2) = Some (?reply, sa)"
    by (simp add: serve1_closed [OF refl] take_probe request_id_probe is_newproto_probe
        Let_def probe_reply_def del: take_append)
  moreover obtain r where "snd (handle_reply start m ?reply now) = Report r # address_lines m (r_info r)"
      "r_info r = (info m)\<lparr>ts1 := t1, ts2 := t2, ts3 := now, seq1 := p_seq p, seq2 := ?s2,
        seq3 := m_seq3 m, ip := be32 (sin_addr sa), port := printed_port (sin_port sa)\<rparr>" "r_id r = p_id p"
    using handle_probe_reply(1) [OF assms(2-4), of "take 65490 pad"] by fastforce
  ultimately show ?thesis
    unfolding pad by (intro exI [of _ ?reply] exI [of _ r])
      (simp add: measure_step_def case_prod_beta printed_port_def)
qed

theorem probe_roundtrip_witness:
  "\<exists>reply r m. snd (serve1 init_server (Some (fst (snd (probe_step 24 1000 0
        (probe_start 24 (replicate 65536 0) \<lparr>tv_sec = 1, tv_nsec = 1\<rparr>) \<lparr>tv_sec = 2, tv_nsec = 3\<rparr>)),
        \<lparr>sin_family = AF_INET, sin_addr = 1, sin_port = 919\<rparr>)) \<lparr>tv_sec = 4, tv_nsec = 5\<rparr>)
      = Some (reply, \<lparr>sin_family = AF_INET, sin_addr = 1, sin_port = 919\<rparr>) \<and>
    reports (snd (measure_step \<lparr>tv_sec = 1, tv_nsec = 0\<rparr> m \<lparr>tv_sec = 6, tv_nsec = 0\<rparr> (Packet reply)
      \<lparr>tv_sec = 7, tv_nsec = 0\<rparr>)) = [r] \<and> ts1 (r_info r) = \<lparr>tv_sec = 2, tv_nsec = 3\<rparr> \<and> port (r_info r) = 663"
proof -
  let ?sa = "\<lparr>sin_family = AF_INET, sin_addr = 1, sin_port = 919\<rparr>"
  let ?t = "\<lparr>tv_sec = 1, tv_nsec = 1\<rparr>"
  let ?m = "measure_start [] \<lparr>ts1 = ?t, ts2 = ?t, ts3 = ?t, seq1 = 0, seq2 = 0, seq3 = 0, ip = [], port = 0\<rparr> ?t"
  have w: "wire_time \<lparr>tv_sec = 2, tv_nsec = 3\<rparr>" "wire_time \<lparr>tv_sec = 4, tv_nsec = 5\<rparr>"
    by (simp_all add: wire_time_def in_s64_def ts_norm_def TIMING_GIGA_def)
  have b: "probe_buf_inv 24 (p_buf (probe_start 24 (replicate 65536 0) ?t))"
    by (rule probe_start_buf) simp_all
  have f: "sin_family ?sa = AF_INET" and p: "bit (919 :: u16) 7"
    by (simp_all add: bit_iff_odd drop_bit_eq_div)
  from probe_roundtrip [OF b w f, of init_server 1000 0 "\<lparr>tv_sec = 1, tv_nsec = 0\<rparr>" ?m
      "\<lparr>tv_sec = 6, tv_nsec = 0\<rparr>" "\<lparr>tv_sec = 7, tv_nsec = 0\<rparr>"]
  show ?thesis
    by (elim exE conjE) (intro exI conjI, assumption+, simp_all add: p)
qed

end
