(* ===== verification/Decimal.thy ===== *)
theory Decimal
  imports Prelude
begin

text \<open>
  The parts of \<open>printf\<close> and \<open>scanf\<close> the programs use: \<open>%d\<close> output, and the \<open>%d\<close> and
  \<open>%lu\<close> conversions of \<open>sscanf\<close> with the C library's treatment of white space, signs and
  values out of range (\<open>strtoul\<close> and \<open>strtol\<close> saturate, \<open>%d\<close> stores the low 32 bits),
  and \<open>atoi\<close>. A \<open>char\<close> list stands for the bytes of the text.
\<close>

section \<open>Printing\<close>

definition digit :: "nat \<Rightarrow> char" where
  "digit n = char_of (48 + n)"

fun show_nat :: "nat \<Rightarrow> string" where
  "show_nat n = (if n < 10 then [digit n] else show_nat (n div 10) @ [digit (n mod 10)])"

declare show_nat.simps [simp del]

definition show_int :: "int \<Rightarrow> string" where
  "show_int i = (if i < 0 then CHR ''-'' # show_nat (nat (- i)) else show_nat (nat i))"

section \<open>Scanning\<close>

definition is_space :: "char \<Rightarrow> bool" where
  "is_space c \<longleftrightarrow> c = CHR '' '' \<or> (9 \<le> (of_char c :: nat) \<and> (of_char c :: nat) \<le> 13)"

definition is_digit :: "char \<Rightarrow> bool" where
  "is_digit c \<longleftrightarrow> 48 \<le> (of_char c :: nat) \<and> (of_char c :: nat) \<le> 57"

definition digit_val :: "char \<Rightarrow> nat" where
  "digit_val c = of_char c - 48"

definition digits_val :: "string \<Rightarrow> nat" where
  "digits_val cs = foldl (\<lambda>a c. 10 * a + digit_val c) 0 cs"

text \<open>The bytes of a C string end at the first NUL.\<close>

definition c_str :: "string \<Rightarrow> string" where
  "c_str cs = takeWhile (\<lambda>c. c \<noteq> CHR 0x00) cs"

text \<open>An optionally signed run of digits: its sign, its value and the rest of the text.\<close>

definition scan_number :: "string \<Rightarrow> (bool \<times> nat \<times> string) option" where
  "scan_number cs =
     (let cs1 = dropWhile is_space cs;
          (neg, cs2) = (case cs1 of [] \<Rightarrow> (False, [])
             | c # r \<Rightarrow> if c = CHR ''-'' then (True, r) else if c = CHR ''+'' then (False, r)
                        else (False, c # r));
          ds = takeWhile is_digit cs2
      in if ds = [] then None else Some (neg, digits_val ds, dropWhile is_digit cs2))"

definition ulong_of :: "bool \<Rightarrow> nat \<Rightarrow> u64" where
  "ulong_of neg n = (if 2 ^ 64 \<le> n then - 1 else if neg then - of_nat n else of_nat n)"

definition long_of :: "bool \<Rightarrow> nat \<Rightarrow> int" where
  "long_of neg n = (if neg then max (- (2 ^ 63)) (- int n) else min (2 ^ 63 - 1) (int n))"

definition scan_lu :: "string \<Rightarrow> (u64 \<times> string) option" where
  "scan_lu cs = (case scan_number cs of None \<Rightarrow> None
     | Some (neg, n, r) \<Rightarrow> Some (ulong_of neg n, r))"

definition scan_d :: "string \<Rightarrow> (int \<times> string) option" where
  "scan_d cs = (case scan_number cs of None \<Rightarrow> None
     | Some (neg, n, r) \<Rightarrow> Some (s32 (long_of neg n), r))"

definition atoi :: "string \<Rightarrow> int" where
  "atoi cs = (case scan_d cs of None \<Rightarrow> 0 | Some (v, r) \<Rightarrow> v)"

definition atoll :: "string \<Rightarrow> int" where
  "atoll cs = (case scan_number cs of None \<Rightarrow> 0 | Some (neg, n, r) \<Rightarrow> long_of neg n)"

section \<open>Reading back what was printed\<close>

lemma of_char_digit: "n < 10 \<Longrightarrow> (of_char (digit n) :: nat) = 48 + n"
  by (simp add: digit_def)

lemma digit_is_digit [simp]: "n < 10 \<Longrightarrow> is_digit (digit n)"
  by (simp add: is_digit_def of_char_digit)

lemma digit_val_digit [simp]: "n < 10 \<Longrightarrow> digit_val (digit n) = n"
  by (simp add: digit_val_def of_char_digit)

lemma is_digit_not_space: "is_digit c \<Longrightarrow> \<not> is_space c"
  by (auto simp: is_digit_def is_space_def)

lemma is_digit_not_sign: "is_digit c \<Longrightarrow> c \<noteq> CHR ''-'' \<and> c \<noteq> CHR ''+'' \<and> c \<noteq> CHR 0x00"
  by (auto simp: is_digit_def)

lemma digits_val_snoc: "digits_val (cs @ [c]) = 10 * digits_val cs + digit_val c"
  by (simp add: digits_val_def)

lemma show_nat_digits: "c \<in> set (show_nat n) \<Longrightarrow> is_digit c"
proof (induction n rule: show_nat.induct)
  case (1 n)
  then show ?case by (auto simp: show_nat.simps [of n] split: if_splits)
qed

lemma show_nat_not_Nil [simp]: "show_nat n \<noteq> []"
  by (subst show_nat.simps) simp

lemma digits_val_show_nat [simp]: "digits_val (show_nat n) = n"
proof (induction n rule: show_nat.induct)
  case (1 n)
  then show ?case
    by (auto simp: show_nat.simps [of n] digits_val_snoc simp flip: digits_val_def)
      (simp add: digits_val_def)
qed

lemma takeWhile_show_nat:
  "r = [] \<or> \<not> is_digit (hd r) \<Longrightarrow> takeWhile is_digit (show_nat n @ r) = show_nat n"
  using show_nat_digits [of _ n] by (cases r) (auto simp: takeWhile_append2 takeWhile_eq_all_conv)

lemma dropWhile_show_nat:
  "r = [] \<or> \<not> is_digit (hd r) \<Longrightarrow> dropWhile is_digit (show_nat n @ r) = r"
  using show_nat_digits [of _ n] by (cases r) (auto simp: dropWhile_append2)

lemma show_nat_Cons: "\<exists>c cs. show_nat n = c # cs \<and> is_digit c"
  using show_nat_not_Nil [of n] show_nat_digits [of _ n] by (cases "show_nat n") auto

lemma scan_number_show_nat:
  "r = [] \<or> \<not> is_digit (hd r) \<Longrightarrow> scan_number (show_nat n @ r) = Some (False, n, r)"
proof -
  assume r: "r = [] \<or> \<not> is_digit (hd r)"
  obtain c cs where c: "show_nat n @ r = c # cs" "is_digit c"
    using show_nat_Cons [of n] by auto
  then have "dropWhile is_space (show_nat n @ r) = show_nat n @ r"
    by (simp add: is_digit_not_space)
  moreover have "(case show_nat n @ r of [] \<Rightarrow> (False, [])
      | c # r' \<Rightarrow> if c = CHR ''-'' then (True, r') else if c = CHR ''+'' then (False, r')
          else (False, c # r')) = (False, show_nat n @ r)"
    using c by (simp add: is_digit_not_sign)
  ultimately show ?thesis
    using r by (simp add: scan_number_def takeWhile_show_nat dropWhile_show_nat)
qed

lemma scan_number_space: "scan_number (CHR '' '' # cs) = scan_number cs"
  by (simp add: scan_number_def is_space_def)

lemma scan_lu_show_nat:
  "n < 2 ^ 64 \<Longrightarrow> r = [] \<or> \<not> is_digit (hd r) \<Longrightarrow> scan_lu (show_nat n @ r) = Some (of_nat n, r)"
  by (simp add: scan_lu_def scan_number_show_nat ulong_of_def)

lemma scan_lu_space: "scan_lu (CHR '' '' # cs) = scan_lu cs"
  by (simp add: scan_lu_def scan_number_space)

lemma c_str_Cons [simp]: "c_str (c # cs) = (if c = CHR 0x00 then [] else c # c_str cs)"
  by (simp add: c_str_def)

lemma c_str_Nil [simp]: "c_str [] = []"
  by (simp add: c_str_def)

lemma c_str_append: "(\<And>c. c \<in> set cs \<Longrightarrow> c \<noteq> CHR 0x00) \<Longrightarrow> c_str (cs @ ds) = cs @ c_str ds"
  by (simp add: c_str_def)

lemma c_str_show_nat: "c_str (show_nat n @ ds) = show_nat n @ c_str ds"
  using show_nat_digits [of _ n] is_digit_not_sign by (intro c_str_append) blast

lemma length_show_nat: "n < 10 ^ k \<Longrightarrow> 0 < k \<Longrightarrow> length (show_nat n) \<le> k"
proof (induction n arbitrary: k rule: show_nat.induct)
  case (1 n)
  show ?case
  proof (cases "n < 10")
    case True
    then show ?thesis using 1 by (simp add: show_nat.simps [of n])
  next
    case False
    then obtain j where j: "k = Suc j" "0 < j"
      using 1(2,3) by (cases k; cases "k - 1") auto
    then have "n div 10 < 10 ^ j"
      using 1(2) by (simp add: less_mult_imp_div_less mult.commute)
    then show ?thesis
      using 1(1) False j by (simp add: show_nat.simps [of n])
  qed
qed

end
