(* ===== verification/Ts_Main.thy ===== *)
theory Ts_Main
  imports Ts_Session Decimal
begin

text \<open>
  \<open>main\<close> of \<open>udp_ts_seq_reply.cpp\<close>: the checks of the command line and of the rate, in the
  order the code makes them, and what is started at the end. The results of the system calls
  are the fields of \<open>ts_env\<close>. A missing argument is a null pointer, which crashes in
  \<open>atoi\<close>. The printed messages are not modelled.
\<close>

section \<open>Model\<close>

record ts_env =
  gai1 :: int
  gai1_addr :: bool
  sock_fd :: int
  bind1 :: int
  gai2 :: int
  gai2_addr :: bool
  bind2 :: int
  fork_ret :: int

record settings =
  kbps :: int
  packet_size :: int
  overhead :: int

datatype ts_outcome =
    Exit int
  | Crash
  | Serving
  | Child settings
  | Parent settings int int int \<comment> \<open>child's pid, receive timeout in s and us\<close>

definition argv_at :: "string list \<Rightarrow> nat \<Rightarrow> string option" where
  "argv_at argv i = (if i < length argv then Some (argv ! i) else None)"

definition recv_timeout :: "settings \<Rightarrow> int \<times> int" where
  "recv_timeout st =
     (let delay_us0 = interval_us (packet_size st) (overhead st) (kbps st) * 1;
          delay_us1 = s64 (delay_us0 * 10);
          delay_us = (if delay_us1 < 200 * 1000 then 200 * 1000 else delay_us1)
      in (delay_us sdiv 1000 sdiv 1000, delay_us smod (1000 * 1000)))"

definition start_probe :: "settings \<Rightarrow> ts_env \<Rightarrow> ts_outcome" where
  "start_probe st env =
     (if packet_size st < 24 then Exit 1
      else if packet_size st > 65536 then Exit 1
      else if kbps st < 1 then Exit 1
      else if interval_us (packet_size st) (overhead st) (kbps st) > 1000000 then Exit 1
      else if fork_ret env = 0 then Child st
      else if fork_ret env > 0 then
        Parent st (fork_ret env) (fst (recv_timeout st)) (snd (recv_timeout st))
      else Exit 0)"

definition ts_main :: "string list \<Rightarrow> ts_env \<Rightarrow> ts_outcome" where
  "ts_main argv env =
     (if length argv \<noteq> 4 \<and> length argv \<noteq> 7 then Exit 1
      else let cmd = argv ! 1 in
        if cmd \<noteq> ''serve'' \<and> cmd \<noteq> ''probe'' then Exit 1
        else if gai1 env \<noteq> 0 then Exit 4
        else if \<not> gai1_addr env then Exit 6
        else if sock_fd env = - 1 then Exit 7
        else if cmd = ''serve'' then (if bind1 env \<noteq> 0 then Exit 5 else Serving)
        else if gai2 env \<noteq> 0 then Exit 4
        else if \<not> gai2_addr env then Exit 6
        else if bind2 env \<noteq> 0 then Exit 5
        else (case (argv_at argv 4, argv_at argv 5, argv_at argv 6) of
            (Some k, Some p, Some ov) \<Rightarrow>
              start_probe \<lparr>kbps = atoi k, packet_size = atoi p, overhead = atoi ov\<rparr> env
          | _ \<Rightarrow> Crash))"

text \<open>The handler: the process to terminate, if any, and the exit status.\<close>

definition signal_handler :: "int \<Rightarrow> int option \<times> int" where
  "signal_handler probe_pid = (if probe_pid > 0 then Some probe_pid else None, 0)"

section \<open>What the checks establish\<close>

definition admitted :: "settings \<Rightarrow> bool" where
  "admitted st \<longleftrightarrow> 24 \<le> packet_size st \<and> packet_size st \<le> 65536 \<and> 1 \<le> kbps st \<and>
     interval_us (packet_size st) (overhead st) (kbps st) \<le> 1000000"

lemma start_probe_admitted:
  "start_probe st env = Child st' \<or> start_probe st env = Parent st' pid s us \<Longrightarrow> admitted st' \<and> st' = st"
  by (auto simp: start_probe_def admitted_def split: if_splits)

lemma start_probe_child_iff:
  "start_probe st env = Child st' \<longleftrightarrow> admitted st \<and> fork_ret env = 0 \<and> st' = st"
  by (auto simp: start_probe_def admitted_def)

text \<open>With working system calls the command line alone decides.\<close>

definition calls_ok :: "ts_env \<Rightarrow> bool" where
  "calls_ok env \<longleftrightarrow> gai1 env = 0 \<and> gai1_addr env \<and> sock_fd env \<noteq> - 1 \<and> gai2 env = 0 \<and>
     gai2_addr env \<and> bind2 env = 0"

lemma ts_main_probe:
  assumes "calls_ok env"
  shows "ts_main [prog, ''probe'', addr, prt, k, p, ov] env
    = start_probe \<lparr>kbps = atoi k, packet_size = atoi p, overhead = atoi ov\<rparr> env"
  using assms by (simp add: calls_ok_def ts_main_def argv_at_def)

lemma ts_main_admitted:
  "ts_main argv env = Child st \<or> ts_main argv env = Parent st pid s us \<Longrightarrow> admitted st"
  using start_probe_admitted [of _ env st pid s us]
  by (auto simp: ts_main_def Let_def split: if_splits option.splits)

lemma start_probe_parent:
  "start_probe st env = Parent st' pid s us \<Longrightarrow> 0 < pid \<and> recv_timeout st' = (s, us)"
  by (auto simp: start_probe_def split: if_splits)

lemma ts_main_parent:
  "ts_main argv env = Parent st pid s us \<Longrightarrow> 0 < pid \<and> recv_timeout st = (s, us)"
  using start_probe_parent [of _ env st pid s us]
  by (auto simp: ts_main_def Let_def split: if_splits option.splits)

lemma admitted_delay:
  assumes "admitted st" "0 \<le> overhead st" "overhead st \<le> 202899"
  shows "0 \<le> delay_ns (packet_size st) (overhead st) (kbps st)"
    "delay_ns (packet_size st) (overhead st) (kbps st) \<le> 1000000000"
    "delay_ns (packet_size st) (overhead st) (kbps st)
       = (packet_size st + overhead st) * 8000 div kbps st * 1000"
proof -
  note r = interval_us_range [of "packet_size st" "overhead st" "kbps st"]
  have i: "interval_us (packet_size st) (overhead st) (kbps st)
      = (packet_size st + overhead st) * 8000 div kbps st"
      "0 \<le> (packet_size st + overhead st) * 8000 div kbps st"
    using r assms by (auto simp: admitted_def)
  then have "(packet_size st + overhead st) * 8000 div kbps st \<le> 1000000"
    using assms(1) by (simp add: admitted_def)
  with i show "0 \<le> delay_ns (packet_size st) (overhead st) (kbps st)"
    "delay_ns (packet_size st) (overhead st) (kbps st) \<le> 1000000000"
    "delay_ns (packet_size st) (overhead st) (kbps st)
       = (packet_size st + overhead st) * 8000 div kbps st * 1000"
    by (simp_all add: delay_ns_def s32_id in_s32_def)
qed

lemma recv_timeout_value:
  assumes "admitted st" "0 \<le> overhead st" "overhead st \<le> 202899"
  defines "us \<equiv> max 200000 (10 * ((packet_size st + overhead st) * 8000 div kbps st))"
  shows "recv_timeout st = (us div 1000000, us mod 1000000)"
proof -
  define i where "i = (packet_size st + overhead st) * 8000 div kbps st"
  have i: "interval_us (packet_size st) (overhead st) (kbps st) = i" "0 \<le> i" "i \<le> 1000000"
    using interval_us_range [of "packet_size st" "overhead st" "kbps st"] assms(1-3)
    by (auto simp: admitted_def i_def)
  have "us = max 200000 (10 * i)"
    by (simp only: us_def i_def)
  then have us: "us = (if i * 10 < 200000 then 200000 else i * 10)" "0 \<le> us"
    by (simp_all add: max_def)
  have "s64 (i * 10) = i * 10"
    using i by (simp add: s64_id in_s64_def)
  then have "recv_timeout st = (us sdiv 1000 sdiv 1000, us smod 1000000)"
    by (simp add: recv_timeout_def Let_def i(1) us(1))
  moreover have "us sdiv 1000 sdiv 1000 = us div 1000 div 1000" "us smod 1000000 = us mod 1000000"
    using us(2) by (simp_all add: sdiv_nonneg smod_nonneg)
  moreover have "us div 1000 div 1000 = us div 1000000"
    by (simp flip: zdiv_zmult2_eq)
  ultimately show ?thesis by simp
qed

section \<open>Properties\<close>

text \<open>
  C19: the pacing of a sender that runs. Whenever \<open>main\<close> starts the child with an overhead between
  0 and 202899 bytes and the child gets past its division, its interval is positive, at most a
  second, and as long as the packet with its overhead takes at the given rate, in whole microseconds; the
  target of its absolute sleep after \<open>n\<close> packets is exactly \<open>n\<close> intervals after its first clock
  reading: sending times do not drift. The nanoseconds of the target stay between 0 and \<open>10 ^ 9\<close>,
  both included; a target of exactly \<open>10 ^ 9\<close>, which is not a normalised time, does occur.
\<close>

theorem admitted_pacing:
  assumes "ts_main argv env = Child st" "0 \<le> overhead st" "overhead st \<le> 202899"
    and "probe (packet_size st) (kbps st) (overhead st) junk now clock = Some datagrams"
    and "ts_norm now" "0 \<le> tv_sec now" "tv_sec now + int (length clock) < 2 ^ 63"
  shows "let d = delay_ns (packet_size st) (overhead st) (kbps st);
      p = fst (probe_run (packet_size st) d warmup (probe_start (packet_size st) junk now) clock)
    in 0 < d \<and> d \<le> 1000000000 \<and>
      d = 1000 * ((packet_size st + overhead st) * 8000 div kbps st) \<and>
      nanos (p_next p) = nanos now + int (length clock) * d \<and>
      0 \<le> tv_nsec (p_next p) \<and> tv_nsec (p_next p) \<le> 1000000000"
proof -
  let ?d = "delay_ns (packet_size st) (overhead st) (kbps st)"
  have a: "admitted st"
    using ts_main_admitted assms(1) by blast
  have "?d \<noteq> 0"
    using assms(4) by (auto simp: probe_def packets_in_first_5_seconds_def)
  moreover have "probe_room ?d (length clock + 0) now"
    using admitted_delay [OF a assms(2,3)] assms(5-7)
    by (auto simp: probe_room_def ts_norm_def TIMING_GIGA_def)
  from pacing.no_drift [OF this] have "let
      p = fst (probe_run (packet_size st) ?d warmup (probe_start (packet_size st) junk now) clock)
    in nanos (p_next p) = nanos now + int (length clock) * ?d \<and>
      0 \<le> tv_nsec (p_next p) \<and> tv_nsec (p_next p) \<le> 1000000000"
    by (simp add: probe_run_next probe_start_def probe_room_def Let_def)
  ultimately show ?thesis
    using admitted_delay [OF a assms(2,3)] by (simp add: Let_def)
qed

text \<open>Settings for the witnesses.\<close>

lemma sample_settings:
  "ts_main [''udp_ts_seq_reply'', ''probe'', ''h'', ''919'', ''30'', ''140'', ''32'']
     \<lparr>gai1 = 0, gai1_addr = True, sock_fd = 3, bind1 = 0, gai2 = 0, gai2_addr = True, bind2 = 0, fork_ret = f\<rparr>
   = start_probe \<lparr>kbps = 30, packet_size = 140, overhead = 32\<rparr>
     \<lparr>gai1 = 0, gai1_addr = True, sock_fd = 3, bind1 = 0, gai2 = 0, gai2_addr = True, bind2 = 0, fork_ret = f\<rparr>"
    (is "?l = _")
  "interval_us 140 32 30 = 45866" "delay_ns 140 32 30 = 45866000"
  "recv_timeout \<lparr>kbps = 30, packet_size = 140, overhead = 32\<rparr> = (0, 458660)"
proof -
  have "atoi ''30'' = 30" "atoi ''140'' = 140" "atoi ''32'' = 32"
    by code_simp+
  then show "?l = start_probe \<lparr>kbps = 30, packet_size = 140, overhead = 32\<rparr>
     \<lparr>gai1 = 0, gai1_addr = True, sock_fd = 3, bind1 = 0, gai2 = 0, gai2_addr = True, bind2 = 0, fork_ret = f\<rparr>"
    by (simp add: ts_main_probe calls_ok_def)
qed code_simp+

theorem admitted_pacing_witness:
  "nanos (p_next (fst (probe_run 140 (delay_ns 140 32 30) 0
      (probe_start 140 [] \<lparr>tv_sec = 8, tv_nsec = 970000000\<rparr>)
      [\<lparr>tv_sec = 8, tv_nsec = 0\<rparr>, \<lparr>tv_sec = 9, tv_nsec = 0\<rparr>]))) = 9061732000"
proof -
  let ?env = "\<lparr>gai1 = 0, gai1_addr = True, sock_fd = 3, bind1 = 0, gai2 = 0, gai2_addr = True, bind2 = 0, fork_ret = 0\<rparr>"
  let ?argv = "[''udp_ts_seq_reply'', ''probe'', ''h'', ''919'', ''30'', ''140'', ''32'']"
  let ?st = "\<lparr>kbps = 30, packet_size = 140, overhead = 32\<rparr>"
  let ?now = "\<lparr>tv_sec = 8, tv_nsec = 970000000\<rparr>"
  let ?clock = "[\<lparr>tv_sec = 8, tv_nsec = 0\<rparr>, \<lparr>tv_sec = 9, tv_nsec = 0\<rparr>]"
  have 1: "ts_main ?argv ?env = Child ?st"
    by (simp add: sample_settings start_probe_def)
  obtain datagrams where 2: "probe 140 30 32 [] ?now ?clock = Some datagrams"
    by (simp add: probe_def packets_in_first_5_seconds_def sample_settings(3))
  from admitted_pacing [OF 1, of "[]" ?now ?clock datagrams 0] 2 show ?thesis
    by (simp add: sample_settings(3) ts_norm_def nanos_def TIMING_GIGA_def Let_def del: probe_run.simps)
qed

text \<open>
  C38: the receive timeout of the parent is a valid \<open>timeval\<close> that is ten packet intervals
  long, but at least 200 ms and at most 10 s.
\<close>

theorem parent_timeout_correct:
  assumes "ts_main argv env = Parent st pid s us" "0 \<le> overhead st" "overhead st \<le> 202899"
  shows "0 \<le> us \<and> us < 1000000 \<and> 0 < pid \<and>
    s * 1000000 + us = max 200000 (10 * ((packet_size st + overhead st) * 8000 div kbps st)) \<and>
    s * 1000000 + us \<le> 10000000"
proof -
  have a: "admitted st"
    using ts_main_admitted assms(1) by blast
  define m where "m = max 200000 (10 * ((packet_size st + overhead st) * 8000 div kbps st))"
  have "0 < pid" "s = m div 1000000" "us = m mod 1000000"
    using ts_main_parent [OF assms(1)] recv_timeout_value [OF a assms(2,3)] by (simp_all add: m_def)
  moreover have "(packet_size st + overhead st) * 8000 div kbps st \<le> 1000000"
    using a interval_us_range [of "packet_size st" "overhead st" "kbps st"] assms(2,3)
    by (auto simp: admitted_def)
  then have "m \<le> 10000000"
    unfolding m_def by (intro max.boundedI) linarith+
  ultimately show ?thesis
    using div_mult_mod_eq [of m 1000000] unfolding m_def [symmetric] by simp
qed

theorem parent_timeout_correct_witness:
  "ts_main [''udp_ts_seq_reply'', ''probe'', ''h'', ''919'', ''30'', ''140'', ''32'']
     \<lparr>gai1 = 0, gai1_addr = True, sock_fd = 3, bind1 = 0, gai2 = 0, gai2_addr = True, bind2 = 0, fork_ret = 77\<rparr>
     = Parent \<lparr>kbps = 30, packet_size = 140, overhead = 32\<rparr> 77 0 458660 \<and>
   0 * 1000000 + 458660 = max 200000 (10 * ((140 + 32) * 8000 div 30 :: int))"
proof -
  have t: "ts_main [''udp_ts_seq_reply'', ''probe'', ''h'', ''919'', ''30'', ''140'', ''32'']
     \<lparr>gai1 = 0, gai1_addr = True, sock_fd = 3, bind1 = 0, gai2 = 0, gai2_addr = True, bind2 = 0, fork_ret = 77\<rparr>
     = Parent \<lparr>kbps = 30, packet_size = 140, overhead = 32\<rparr> 77 0 458660"
    by (simp add: sample_settings start_probe_def)
  from parent_timeout_correct [OF t] t show ?thesis
    by simp
qed

text \<open>
  The argument count is not enforced for \<open>probe\<close>: with four arguments the program gets
  past its message, binds its sockets and then reads a null pointer, whenever the system calls
  succeed.
\<close>

theorem probe_without_rate_crashes:
  assumes "gai1 env = 0" "gai1_addr env" "sock_fd env \<noteq> - 1" "gai2 env = 0" "gai2_addr env" "bind2 env = 0"
  shows "ts_main [prog, ''probe'', addr, prt] env = Crash"
  using assms by (simp add: ts_main_def argv_at_def)

theorem probe_without_rate_crashes_witness:
  "ts_main [''udp_ts_seq_reply'', ''probe'', ''0.0.0.0'', ''919'']
    \<lparr>gai1 = 0, gai1_addr = True, sock_fd = 3, bind1 = 0, gai2 = 0, gai2_addr = True, bind2 = 0, fork_ret = 1\<rparr> = Crash"
  by (rule probe_without_rate_crashes) simp_all

text \<open>
  C39: a rate that is high for the packet size passes all checks of \<open>main\<close> and kills the sender. If the
  system calls work, the packet size is between 24 and 65536, the overhead between 0 and 202899, and
  the packet takes less than a microsecond at the given rate, then \<open>main\<close> starts the child
  with these settings, and the child divides by its zero interval: no packet is ever sent.
\<close>

theorem admitted_rate_traps:
  assumes "calls_ok env" "fork_ret env = 0"
    and "24 \<le> atoi p" "atoi p \<le> 65536" "0 \<le> atoi ov" "atoi ov \<le> 202899"
    and "(atoi p + atoi ov) * 8000 < atoi k"
  shows "ts_main [prog, ''probe'', addr, prt, k, p, ov] env
      = Child \<lparr>kbps = atoi k, packet_size = atoi p, overhead = atoi ov\<rparr> \<and>
    probe (atoi p) (atoi k) (atoi ov) junk now clock = None"
proof -
  have "(atoi p + atoi ov) * 8000 div atoi k = 0"
    using assms(3-7) by (intro div_pos_pos_trivial) auto
  then have z: "interval_us (atoi p) (atoi ov) (atoi k) = 0"
    using interval_us_range(1) [of "atoi p" "atoi ov" "atoi k"] assms(3-7) by simp
  then have "start_probe \<lparr>kbps = atoi k, packet_size = atoi p, overhead = atoi ov\<rparr> env
      = Child \<lparr>kbps = atoi k, packet_size = atoi p, overhead = atoi ov\<rparr>"
    using assms(2-7) by (simp add: start_probe_def)
  then show ?thesis
    using z by (simp add: ts_main_probe [OF assms(1)] probe_def packets_in_first_5_seconds_def delay_ns_def s32_def)
qed

theorem admitted_rate_traps_witness:
  "ts_main [''udp_ts_seq_reply'', ''probe'', ''h'', ''919'', ''200000'', ''24'', ''0'']
     \<lparr>gai1 = 0, gai1_addr = True, sock_fd = 3, bind1 = 0, gai2 = 0, gai2_addr = True, bind2 = 0, fork_ret = 0\<rparr>
     = Child \<lparr>kbps = 200000, packet_size = 24, overhead = 0\<rparr> \<and>
   probe 24 200000 0 [] \<lparr>tv_sec = 1, tv_nsec = 2\<rparr> [] = None"
proof -
  have "atoi ''200000'' = 200000" "atoi ''24'' = 24" "atoi ''0'' = 0"
    by (simp_all add: atoi_def scan_d_def scan_number_def digits_val_def digit_val_def is_digit_def
        is_space_def long_of_def s32_def)
  then show ?thesis
    using admitted_rate_traps [of "\<lparr>gai1 = 0, gai1_addr = True, sock_fd = 3, bind1 = 0, gai2 = 0,
        gai2_addr = True, bind2 = 0, fork_ret = 0\<rparr>" "''24''" "''0''" "''200000''"]
    by (simp add: calls_ok_def)
qed

text \<open>
  The rounding test of the pacing uses \<open>>\<close> where \<open>>=\<close> is meant: settings with which the child is
  started reach a target with \<open>10 ^ 9\<close> nanoseconds, which the sleep call rejects as invalid.
\<close>

lemma pacing_unnormalised:
  assumes "fork_ret env = 0"
  shows "start_probe \<lparr>kbps = 1, packet_size = 125, overhead = 0\<rparr> env
      = Child \<lparr>kbps = 1, packet_size = 125, overhead = 0\<rparr> \<and>
   \<not> ts_norm (probe_advance (delay_ns 125 0 1) \<lparr>tv_sec = 5, tv_nsec = 0\<rparr>)"
proof -
  have "interval_us 125 0 1 = 1000000" "delay_ns 125 0 1 = 1000000000"
    by code_simp+
  then show ?thesis
    unfolding start_probe_child_iff
    using assms by (simp add: admitted_def probe_advance_def ts_norm_def TIMING_GIGA_def s64_def)
qed

end
