(* ===== verification/Ts_Network.thy ===== *)
theory Ts_Network
  imports Ts_Session
begin

text \<open>
  The whole of \<open>udp_ts_seq_reply\<close> as a transition system over the real thing UDP gives: a
  datagram that was sent may arrive never, once or many times, at any later moment and in any
  order. The sender, the server and the measuring parent move independently; the server also
  serves other clients in between. Every step is one call of the component's own step function
  (\<open>probe_step\<close>, \<open>serve1\<close>, \<open>measure_step\<close>).

  As usual for protocols, the network is the set of everything that was ever sent: a lost
  datagram is one that is never picked, a duplicate is picked twice.
\<close>

section \<open>The transition system\<close>

text \<open>
  Beside the states of the three programs, the log of what was sent and when, the log of the
  requests of this client the server took (datagram, address it came from, clock), the replies
  on their way back and the lines printed so far.
\<close>

record network =
  n_prober :: probe_state
  n_srv :: server
  n_meter :: measure_state
  n_sent :: "(timespec \<times> byte list) list"
  n_served :: "(byte list \<times> sockaddr_in \<times> timespec) list"
  n_down :: "byte list set"
  n_out :: "line list"

inductive net_step :: "int \<Rightarrow> int \<Rightarrow> u32 \<Rightarrow> timespec \<Rightarrow> network \<Rightarrow> network \<Rightarrow> bool"
  for pktsize delay warmup start
  where
    net_send: "\<lbrakk>wire_time t; probe_step pktsize delay warmup (n_prober n) t = (p, d, w)\<rbrakk>
      \<Longrightarrow> net_step pktsize delay warmup start n (n\<lparr>n_prober := p, n_sent := n_sent n @ [(t, d)]\<rparr>)"
  | net_serve: "\<lbrakk>(u, d) \<in> set (n_sent n); wire_time t; sin_family sa = AF_INET;
       serve1 (n_srv n) (Some (d, sa)) t = (st, Some (reply, peer))\<rbrakk>
      \<Longrightarrow> net_step pktsize delay warmup start n
            (n\<lparr>n_srv := st, n_served := n_served n @ [(d, sa, t)], n_down := insert reply (n_down n)\<rparr>)"
  | net_other: "\<lbrakk>request_id (take 65514 d) \<noteq> p_id (n_prober n); serve1 (n_srv n) (Some (d, sa)) t = (st, out)\<rbrakk>
      \<Longrightarrow> net_step pktsize delay warmup start n (n\<lparr>n_srv := st\<rparr>)"
  | net_receive: "\<lbrakk>reply \<in> n_down n; measure_step start (n_meter n) check (Packet reply) now = (m, ls)\<rbrakk>
      \<Longrightarrow> net_step pktsize delay warmup start n (n\<lparr>n_meter := m, n_out := n_out n @ ls\<rparr>)"
  | net_silence: "\<lbrakk>r \<in> {Timeout, Failed}; measure_step start (n_meter n) check r now = (m, ls)\<rbrakk>
      \<Longrightarrow> net_step pktsize delay warmup start n (n\<lparr>n_meter := m, n_out := n_out n @ ls\<rparr>)"

inductive net_reach :: "int \<Rightarrow> int \<Rightarrow> u32 \<Rightarrow> timespec \<Rightarrow> network \<Rightarrow> network \<Rightarrow> bool"
  for pktsize delay warmup start n0
  where
    net_start: "net_reach pktsize delay warmup start n0 n0"
  | net_next: "\<lbrakk>net_reach pktsize delay warmup start n0 n; net_step pktsize delay warmup start n n'\<rbrakk>
      \<Longrightarrow> net_reach pktsize delay warmup start n0 n'"

lemmas net_intros = net_start net_next

definition network_start :: "int \<Rightarrow> byte list \<Rightarrow> timespec \<Rightarrow> server \<Rightarrow> measure_state \<Rightarrow> network" where
  "network_start pktsize junk now server0 meter0 =
     \<lparr>n_prober = probe_start pktsize junk now, n_srv = server0, n_meter = meter0,
      n_sent = [], n_served = [], n_down = {}, n_out = []\<rparr>"

section \<open>What the logs determine\<close>

text \<open>The number the server gives to the request at position \<open>j\<close> of its log.\<close>

definition serial :: "(byte list \<times> sockaddr_in \<times> timespec) list \<Rightarrow> nat \<Rightarrow> nat" where
  "serial V j = client_number (client_after None (map (\<lambda>(d, sa, t). t) (take j V)))
     ((\<lambda>(d, sa, t). t) (V ! j))"

text \<open>The datagram of probe \<open>i\<close> in the log of the sender.\<close>

definition probe_at :: "u32 \<Rightarrow> (timespec \<times> byte list) list \<Rightarrow> nat \<Rightarrow> bool" where
  "probe_at cid S i \<longleftrightarrow> wire_time (fst (S ! i)) \<and>
     (\<exists>pad. snd (S ! i) = probe_header cid (fst (S ! i)) (of_nat i) @ pad)"

text \<open>Request \<open>j\<close> of the server's log is probe \<open>i\<close>; it was taken at \<open>t\<close>, coming from \<open>sa\<close>.\<close>

definition request_at :: "(timespec \<times> byte list) list \<Rightarrow> (byte list \<times> sockaddr_in \<times> timespec) list
    \<Rightarrow> nat \<Rightarrow> nat \<Rightarrow> sockaddr_in \<Rightarrow> timespec \<Rightarrow> bool" where
  "request_at S V i j sa t \<longleftrightarrow> i < length S \<and> j < length V \<and> V ! j = (snd (S ! i), sa, t) \<and>
     wire_time t \<and> sin_family sa = AF_INET"

definition reply_at :: "u32 \<Rightarrow> (timespec \<times> byte list) list \<Rightarrow> (byte list \<times> sockaddr_in \<times> timespec) list
    \<Rightarrow> byte list \<Rightarrow> bool" where
  "reply_at cid S V reply \<longleftrightarrow> (\<exists>i j sa t pad. request_at S V i j sa t \<and>
     snd (S ! i) = probe_header cid (fst (S ! i)) (of_nat i) @ pad \<and>
     reply = probe_reply t (of_nat (serial V j)) sa cid (fst (S ! i)) (of_nat i) (take 65490 pad))"

text \<open>The report at position \<open>k\<close> is a true account of probe \<open>i\<close>, taken as request \<open>j\<close>.\<close>

definition true_report :: "u32 \<Rightarrow> (timespec \<times> byte list) list \<Rightarrow> (byte list \<times> sockaddr_in \<times> timespec) list
    \<Rightarrow> nat \<Rightarrow> report \<Rightarrow> nat \<Rightarrow> nat \<Rightarrow> bool" where
  "true_report cid S V k r i j \<longleftrightarrow> (\<exists>sa t. request_at S V i j sa t \<and> r_id r = cid \<and>
     ts1 (r_info r) = fst (S ! i) \<and> seq1 (r_info r) = of_nat i \<and>
     ts2 (r_info r) = t \<and> seq2 (r_info r) = of_nat (serial V j) \<and> seq3 (r_info r) = of_nat k \<and>
     ip (r_info r) = be32 (sin_addr sa) \<and> port (r_info r) = printed_port (sin_port sa) \<and>
     r_loss_there r = uint (seq1 (r_info r)) - uint (seq2 (r_info r)) \<and>
     r_loss_back r = uint (seq2 (r_info r)) - uint (seq3 (r_info r)))"

text \<open>Logs only grow, and what they determine stays.\<close>

lemma serial_append: "j < length V \<Longrightarrow> serial (V @ W) j = serial V j"
  by (simp add: serial_def nth_append)

lemma probe_at_append: "i < length S \<Longrightarrow> probe_at cid (S @ T) i = probe_at cid S i"
  by (simp add: probe_at_def nth_append)

lemma request_at_append: "request_at S V i j sa t \<Longrightarrow> request_at (S @ T) (V @ W) i j sa t"
  by (simp add: request_at_def nth_append)

lemma request_at_bounds: "request_at S V i j sa t \<Longrightarrow> i < length S \<and> j < length V"
  by (simp add: request_at_def)

lemma reply_at_append: "reply_at cid S V reply \<Longrightarrow> reply_at cid (S @ T) (V @ W) reply"
  unfolding reply_at_def
  by (elim exE conjE, frule request_at_bounds, intro exI conjI, erule request_at_append)
    (simp_all add: nth_append serial_append)

lemma true_report_append:
  "true_report cid S V k r i j \<Longrightarrow> true_report cid (S @ T) (V @ W) k r i j"
  unfolding true_report_def
  by (elim exE conjE, frule request_at_bounds, intro exI conjI, erule request_at_append)
    (simp_all add: nth_append serial_append)

lemmas log_append = reply_at_append true_report_append

lemma client_after_snoc: "client_after c (ts @ [t]) = Some (Suc (client_number (client_after c ts) t), t)"
  by (induction c ts rule: client_after.induct) simp_all

section \<open>Invariants, one per part\<close>

definition sender_ok :: "int \<Rightarrow> u32 \<Rightarrow> network \<Rightarrow> bool" where
  "sender_ok pktsize cid n \<longleftrightarrow> probe_buf_inv pktsize (p_buf (n_prober n)) \<and>
     p_id (n_prober n) = cid \<and> p_seq (n_prober n) = of_nat (length (n_sent n)) \<and>
     (\<forall>i<length (n_sent n). probe_at cid (n_sent n) i)"

definition server_ok :: "u32 \<Rightarrow> network \<Rightarrow> bool" where
  "server_ok cid n \<longleftrightarrow>
     tracks (n_srv n) cid (client_after None (map (\<lambda>(d, sa, t). t) (n_served n)))"

definition wire_ok :: "u32 \<Rightarrow> network \<Rightarrow> bool" where
  "wire_ok cid n \<longleftrightarrow> (\<forall>reply\<in>n_down n. reply_at cid (n_sent n) (n_served n) reply)"

definition meter_ok :: "u32 \<Rightarrow> network \<Rightarrow> bool" where
  "meter_ok cid n \<longleftrightarrow> m_seq3 (n_meter n) = of_nat (length (reports (n_out n))) \<and>
     (\<forall>k<length (reports (n_out n)). \<exists>i j.
        true_report cid (n_sent n) (n_served n) k (reports (n_out n) ! k) i j)"

definition network_ok :: "int \<Rightarrow> u32 \<Rightarrow> network \<Rightarrow> bool" where
  "network_ok pktsize cid n \<longleftrightarrow>
     sender_ok pktsize cid n \<and> server_ok cid n \<and> wire_ok cid n \<and> meter_ok cid n"

lemma network_okI:
  "\<lbrakk>sender_ok pktsize cid n; server_ok cid n; wire_ok cid n; meter_ok cid n\<rbrakk> \<Longrightarrow> network_ok pktsize cid n"
  by (simp add: network_ok_def)

lemma network_start_ok:
  assumes "24 \<le> pktsize" "pktsize \<le> 65536" "length junk = 65536"
    and "lastseens server0 (probe_id now) = None" "m_seq3 meter0 = 0"
  shows "network_ok pktsize (probe_id now) (network_start pktsize junk now server0 meter0)"
  using assms probe_start_buf [OF assms(1-3)]
  by (simp add: network_ok_def sender_ok_def server_ok_def wire_ok_def meter_ok_def
      network_start_def probe_start_def tracks_def)

text \<open>The logs may grow without touching what is on the wire or was printed.\<close>

lemma meter_ok_grow:
  assumes "meter_ok cid n" "n_meter n' = n_meter n" "n_out n' = n_out n"
    and "n_sent n' = n_sent n @ T" "n_served n' = n_served n @ W"
  shows "meter_ok cid n'"
  using assms log_append(2) unfolding meter_ok_def by (metis (no_types, lifting))

lemma wire_ok_grow:
  assumes "wire_ok cid n" "n_down n' = n_down n"
    and "n_sent n' = n_sent n @ T" "n_served n' = n_served n @ W"
  shows "wire_ok cid n'"
  using assms by (auto simp: wire_ok_def log_append)

subsection \<open>Sending\<close>

lemma send_ok:
  assumes ok: "network_ok pktsize cid n" and t: "wire_time t"
    and st: "probe_step pktsize delay warmup (n_prober n) t = (p, d, w)"
  shows "network_ok pktsize cid (n\<lparr>n_prober := p, n_sent := n_sent n @ [(t, d)]\<rparr>)" (is "network_ok _ _ ?n")
proof (rule network_okI)
  have s: "sender_ok pktsize cid n"
    using ok by (simp add: network_ok_def)
  then have "\<exists>pad. d = probe_header cid t (of_nat (length (n_sent n))) @ pad"
    using probe_step_packet [of pktsize "n_prober n" delay warmup t] st by (simp add: sender_ok_def)
  moreover have "probe_buf_inv pktsize (p_buf p)" "p_id p = cid" "p_seq p = of_nat (Suc (length (n_sent n)))"
    using s probe_step_state [where pktsize = pktsize and delay = delay and warmup = warmup
        and p = "n_prober n" and ts = t] st
    by (simp_all add: sender_ok_def add.commute)
  ultimately show "sender_ok pktsize cid ?n"
    using s t by (auto simp: sender_ok_def less_Suc_eq probe_at_append probe_at_def nth_append)
  show "server_ok cid ?n"
    using ok by (simp add: network_ok_def server_ok_def)
  show "wire_ok cid ?n" "meter_ok cid ?n"
    using ok by (auto simp: network_ok_def elim!: wire_ok_grow meter_ok_grow [where W = "[]"])
qed

subsection \<open>Serving\<close>

lemma serve_ok:
  assumes ok: "network_ok pktsize cid n" and d: "(u, d) \<in> set (n_sent n)"
    and w: "wire_time t" "sin_family sa = AF_INET"
    and st: "serve1 (n_srv n) (Some (d, sa)) t = (st, Some (reply, peer))"
  shows "network_ok pktsize cid
    (n\<lparr>n_srv := st, n_served := n_served n @ [(d, sa, t)], n_down := insert reply (n_down n)\<rparr>)"
    (is "network_ok _ _ ?n")
proof (rule network_okI)
  let ?V = "n_served n" and ?c = "client_after None (map (\<lambda>(d, sa, t). t) (n_served n))"
  have tr: "tracks (n_srv n) cid ?c"
    using ok by (simp add: network_ok_def server_ok_def)
  obtain i where i: "i < length (n_sent n)" "n_sent n ! i = (u, d)"
    using d by (auto simp: in_set_conv_nth)
  obtain pad where pad: "d = probe_header cid u (of_nat i) @ pad"
    using ok i by (auto simp: network_ok_def sender_ok_def probe_at_def dest!: spec [of _ i])
  note served = serve1_probe [OF tr, of u "of_nat i" pad sa t, folded pad, unfolded st]
  show "sender_ok pktsize cid ?n" "meter_ok cid ?n"
    using ok by (auto simp: network_ok_def sender_ok_def elim!: meter_ok_grow [where T = "[]"])
  show "server_ok cid ?n"
    using served(2) by (simp add: server_ok_def client_after_snoc)
  have "request_at (n_sent n) (?V @ [(d, sa, t)]) i (length ?V) sa t"
    using i w by (simp add: request_at_def)
  then have "reply_at cid (n_sent n) (?V @ [(d, sa, t)]) reply"
    using served(1) i pad unfolding reply_at_def
    by (intro exI conjI) (assumption, simp_all add: serial_def)
  moreover have "wire_ok cid (n\<lparr>n_served := ?V @ [(d, sa, t)]\<rparr>)"
    using ok by (auto simp: network_ok_def elim!: wire_ok_grow [where T = "[]"])
  ultimately show "wire_ok cid ?n"
    by (simp add: wire_ok_def)
qed

lemma other_ok:
  assumes "network_ok pktsize cid n" "request_id (take 65514 d) \<noteq> cid"
    and "serve1 (n_srv n) (Some (d, sa)) t = (st, out)"
  shows "network_ok pktsize cid (n\<lparr>n_srv := st\<rparr>)"
  using assms tracks_step [of "n_srv n" cid _ d sa t]
  by (fastforce simp: network_ok_def sender_ok_def server_ok_def wire_ok_def meter_ok_def)

subsection \<open>Receiving\<close>

lemma receive_ok:
  assumes ok: "network_ok pktsize cid n" and d: "reply \<in> n_down n"
    and st: "measure_step start (n_meter n) check (Packet reply) now = (m, ls)"
  shows "network_ok pktsize cid (n\<lparr>n_meter := m, n_out := n_out n @ ls\<rparr>)" (is "network_ok _ _ ?n")
proof (rule network_okI)
  let ?S = "n_sent n" and ?V = "n_served n" and ?K = "length (reports (n_out n))"
  show "sender_ok pktsize cid ?n" "server_ok cid ?n" "wire_ok cid ?n"
    using ok by (simp_all add: network_ok_def sender_ok_def server_ok_def wire_ok_def)
  from ok d obtain i j sa t pad where q: "request_at ?S ?V i j sa t"
    and reply: "reply = probe_reply t (of_nat (serial ?V j)) sa cid (fst (?S ! i)) (of_nat i) (take 65490 pad)"
    unfolding network_ok_def wire_ok_def reply_at_def by blast
  have w: "wire_time (fst (?S ! i))" "wire_time t" "sin_family sa = AF_INET"
    using ok q by (auto simp: network_ok_def sender_ok_def probe_at_def request_at_def)
  have k: "m_seq3 (n_meter n) = of_nat ?K"
    using ok by (simp add: network_ok_def meter_ok_def)
  note handled = handle_probe_reply [OF w, of "take 65490 pad" start "n_meter n" "of_nat (serial ?V j)"
      cid "of_nat i" now, folded reply]
  obtain r where r: "reports ls = [r]" "true_report cid ?S ?V ?K r i j"
    using handled(1) st q k by (fastforce simp: measure_step_def case_prod_beta true_report_def)
  moreover have "m_seq3 m = of_nat (Suc ?K)"
    using handled(2) st k by (auto simp: measure_step_def case_prod_beta add.commute)
  ultimately show "meter_ok cid ?n"
    using ok by (auto simp: network_ok_def meter_ok_def less_Suc_eq nth_append)
qed

lemma silence_ok:
  assumes "network_ok pktsize cid n" "r \<in> {Timeout, Failed}"
    and "measure_step start (n_meter n) check r now = (m, ls)"
  shows "network_ok pktsize cid (n\<lparr>n_meter := m, n_out := n_out n @ ls\<rparr>)"
proof -
  have "reports ls = []" "m_seq3 m = m_seq3 (n_meter n)"
    using assms(2,3) by (auto simp: measure_step_def split: if_splits)
  with assms(1) show ?thesis
    by (simp add: network_ok_def sender_ok_def server_ok_def wire_ok_def meter_ok_def)
qed

section \<open>Reachable states\<close>

lemmas net_step_keeps = send_ok serve_ok receive_ok silence_ok

lemma net_step_ok:
  assumes "net_step pktsize delay warmup start n n'" "network_ok pktsize cid n"
  shows "network_ok pktsize cid n'"
  using assms(1)
proof (cases rule: net_step.cases)
  case (net_other d sa t st out)
  have "p_id (n_prober n) = cid"
    using assms(2) by (simp add: network_ok_def sender_ok_def)
  then show ?thesis
    unfolding net_other(1) by (intro other_ok [OF assms(2) _ net_other(3)]) (use net_other(2) in simp)
qed (simp_all only: net_step_keeps [OF assms(2)])

lemma net_reach_ok:
  assumes "net_reach pktsize delay warmup start n0 n" "network_ok pktsize cid n0"
  shows "network_ok pktsize cid n"
  using assms by (induction rule: net_reach.induct) (auto intro: net_step_ok)

text \<open>A client that is never silent for long is numbered by position.\<close>

lemma no_long_gap_take: "no_long_gap ts \<Longrightarrow> no_long_gap (take k ts)"
proof (induction ts arbitrary: k rule: no_long_gap.induct)
  case (1 s t ts)
  from "1.IH" [of "k - 1"] "1.prems" show ?case
    by (auto simp: take_Cons split: nat.split nat.split_asm)
qed (simp_all add: take_Cons split: nat.split)

lemma serial_position:
  assumes "no_long_gap (map (\<lambda>(d, sa, t). t) V)" "j < length V"
  shows "serial V j = j"
proof -
  have "no_long_gap (map (\<lambda>(d, sa, t). t) (take (Suc j) V))"
    using no_long_gap_take [OF assms(1)] by (simp add: take_map)
  then show ?thesis
    using assms(2) gapless_number by (fastforce simp: serial_def take_Suc_conv_app_nth)
qed

subsection \<open>What can always happen next\<close>

lemma can_send:
  assumes "wire_time t"
  shows "\<exists>n' d. net_step pktsize delay warmup start n n' \<and> n_sent n' = n_sent n @ [(t, d)] \<and>
    n_served n' = n_served n \<and> n_down n' = n_down n \<and> n_out n' = n_out n"
proof -
  obtain p d w where "probe_step pktsize delay warmup (n_prober n) t = (p, d, w)"
    by (cases "probe_step pktsize delay warmup (n_prober n) t")
  from net_send [OF assms this, of start] show ?thesis
    by fastforce
qed

lemma can_serve:
  assumes "(u, d) \<in> set (n_sent n)" "wire_time t" "sin_family sa = AF_INET"
  shows "\<exists>n' reply. net_step pktsize delay warmup start n n' \<and> n_sent n' = n_sent n \<and>
    n_served n' = n_served n @ [(d, sa, t)] \<and> n_down n' = insert reply (n_down n) \<and> n_out n' = n_out n"
proof -
  obtain st reply peer where "serve1 (n_srv n) (Some (d, sa)) t = (st, Some (reply, peer))"
    by (simp add: serve1_closed [OF refl] Let_def)
  from net_serve [OF assms this, of pktsize delay warmup start] show ?thesis
    by fastforce
qed

lemma can_receive:
  assumes "network_ok pktsize cid n" "reply \<in> n_down n"
  shows "\<exists>n' r. net_step pktsize delay warmup start n n' \<and> n_sent n' = n_sent n \<and>
    n_served n' = n_served n \<and> n_down n' = n_down n \<and> reports (n_out n') = reports (n_out n) @ [r]"
proof -
  obtain m ls where st: "measure_step start (n_meter n) t0 (Packet reply) t0 = (m, ls)"
    by (cases "measure_step start (n_meter n) t0 (Packet reply) t0")
  have "\<exists>r. reports ls = [r]"
    using st by (auto simp: measure_step_def handle_reply_def Let_def split: prod.splits)
  with net_receive [OF assms(2) st, of pktsize delay warmup] show ?thesis
    by fastforce
qed

lemma duplicate_reachable:
  assumes t: "wire_time t" and ok: "network_ok pktsize cid n0"
    and n0: "n_sent n0 = []" "n_served n0 = []" "n_out n0 = []"
  shows "\<exists>n. net_reach pktsize delay warmup start n0 n \<and> length (n_sent n) = 1 \<and>
    map (\<lambda>(d, sa, t). t) (n_served n) = [t, t] \<and> length (reports (n_out n)) = 2"
proof -
  let ?step = "net_step pktsize delay warmup start"
  define sa where "sa = \<lparr>sin_family = AF_INET, sin_addr = 1, sin_port = 2\<rparr>"
  have sa: "sin_family sa = AF_INET" by (simp add: sa_def)
  obtain n1 d where 1: "?step n0 n1" "n_sent n1 = [(t, d)]" "n_served n1 = []" "n_out n1 = []"
    using can_send [OF t, of pktsize delay warmup start n0] n0 by auto
  obtain n2 where 2: "?step n1 n2" "n_sent n2 = [(t, d)]" "n_served n2 = [(d, sa, t)]" "n_out n2 = []"
    using can_serve [OF _ t sa, of t d n1 pktsize delay warmup start] 1 by auto
  obtain n3 reply where 3: "?step n2 n3" "n_sent n3 = [(t, d)]"
      "n_served n3 = [(d, sa, t), (d, sa, t)]" "n_out n3 = []" "reply \<in> n_down n3"
    using can_serve [OF _ t sa, of t d n2 pktsize delay warmup start] 2 by auto
  have r3: "net_reach pktsize delay warmup start n0 n3"
    using 1(1) 2(1) 3(1) by (blast intro: net_intros)
  obtain n4 where 4: "?step n3 n4" "n_sent n4 = [(t, d)]" "n_served n4 = [(d, sa, t), (d, sa, t)]"
      "length (reports (n_out n4)) = 1" "reply \<in> n_down n4"
    using can_receive [OF net_reach_ok [OF r3 ok] 3(5), of delay warmup start] 3 by fastforce
  have r4: "net_reach pktsize delay warmup start n0 n4"
    using r3 4(1) by (rule net_next)
  obtain n5 where "?step n4 n5" "n_sent n5 = [(t, d)]" "n_served n5 = [(d, sa, t), (d, sa, t)]"
      "length (reports (n_out n5)) = 2"
    using can_receive [OF net_reach_ok [OF r4 ok] 4(5), of delay warmup start] 4 by fastforce
  then show ?thesis
    using net_next [OF r4] by (intro exI [of _ n5]) simp
qed

text \<open>A run of the system in which a probe is duplicated on the way and both replies come back.\<close>

lemma duplicate_run:
  fixes t :: timespec
  defines "t \<equiv> \<lparr>tv_sec = 9, tv_nsec = 5\<rparr>"
  shows "\<exists>meter0 n. m_seq3 meter0 = 0 \<and>
    net_reach 24 1000 0 t (network_start 24 (replicate 65536 0) t init_server meter0) n \<and>
    length (n_sent n) = 1 \<and> map (\<lambda>(d, sa, t). t) (n_served n) = [t, t] \<and> length (reports (n_out n)) = 2"
proof -
  let ?m = "measure_start [] \<lparr>ts1 = t, ts2 = t, ts3 = t, seq1 = 0, seq2 = 0, seq3 = 0, ip = [], port = 0\<rparr> t"
  have "network_ok 24 (probe_id t) (network_start 24 (replicate 65536 0) t init_server ?m)"
    by (rule network_start_ok) (simp_all add: init_server_def measure_start_def)
  moreover have "wire_time t"
    by (simp add: t_def wire_time_def in_s64_def ts_norm_def TIMING_GIGA_def)
  ultimately have "\<exists>n. net_reach 24 1000 0 t (network_start 24 (replicate 65536 0) t init_server ?m) n \<and>
    length (n_sent n) = 1 \<and> map (\<lambda>(d, sa, t). t) (n_served n) = [t, t] \<and> length (reports (n_out n)) = 2"
    by (intro duplicate_reachable) (simp_all add: network_start_def)
  then show ?thesis
    by (intro exI [of _ ?m]) (simp add: measure_start_def)
qed

section \<open>Properties\<close>

text \<open>
  C1: every printed report is the true account of one probe. Whatever the network does
  (losing, delaying, duplicating, reordering in both directions) and however the programs and
  other clients are interleaved, the report at position \<open>k\<close> belongs to one probe \<open>i\<close> that was sent
  and one request \<open>j\<close> the server took: it names the client's id, the time the sender read for
  probe \<open>i\<close> and its number, the time the server read for request \<open>j\<close>, the number the server gave
  it and the address it came from; its third number is \<open>k\<close>, and the two loss columns are the
  differences of these numbers. A report never mixes the fields of two packets.
\<close>

theorem network_reports_true:
  assumes "24 \<le> pktsize" "pktsize \<le> 65536" "length junk = 65536"
    and "lastseens server0 (probe_id now) = None" "m_seq3 meter0 = 0"
    and "net_reach pktsize delay warmup start (network_start pktsize junk now server0 meter0) n"
    and "k < length (reports (n_out n))"
  shows "\<exists>i j. true_report (probe_id now) (n_sent n) (n_served n) k (reports (n_out n) ! k) i j"
  using net_reach_ok [OF assms(6) network_start_ok [OF assms(1-5)]] assms(7)
  by (simp add: network_ok_def meter_ok_def)

theorem network_reports_true_witness:
  "\<exists>(n :: network) i j. length (reports (n_out n)) = 2 \<and>
    true_report 12 (n_sent n) (n_served n) 1 (reports (n_out n) ! 1) i j"
proof -
  let ?t = "\<lparr>tv_sec = 9, tv_nsec = 5\<rparr>"
  obtain meter0 n where m: "m_seq3 meter0 = 0"
    and n: "net_reach 24 1000 0 ?t (network_start 24 (replicate 65536 0) ?t init_server meter0) n"
      "length (reports (n_out n)) = 2"
    using duplicate_run by blast
  have "\<exists>i j. true_report (probe_id ?t) (n_sent n) (n_served n) 1 (reports (n_out n) ! 1) i j"
    by (rule network_reports_true [OF _ _ _ _ m n(1)]) (simp_all add: n(2) init_server_def)
  moreover have "probe_id ?t = 12"
    by (simp add: probe_id_def)
  ultimately show ?thesis
    using n(2) by (intro exI [of _ n]) simp
qed

text \<open>
  C3: what the loss columns mean when the network also reorders and duplicates. If the server
  hears this client at least every 60 seconds and fewer than \<open>2 ^ 32\<close> probes, requests and
  reports were counted, then the report at position \<open>k\<close>, about probe \<open>i\<close> taken as request \<open>j\<close>,
  shows \<open>i - j\<close> in the first column (probes sent before this one, less requests the server took
  before it) and \<open>j - k\<close> in the second (requests taken before it, less replies received before it).
\<close>

theorem network_loss_columns:
  assumes "24 \<le> pktsize" "pktsize \<le> 65536" "length junk = 65536"
    and "lastseens server0 (probe_id now) = None" "m_seq3 meter0 = 0"
    and "net_reach pktsize delay warmup start (network_start pktsize junk now server0 meter0) n"
    and "k < length (reports (n_out n))"
    and "no_long_gap (map (\<lambda>(d, sa, t). t) (n_served n))"
    and "length (n_sent n) \<le> 2 ^ 32" "length (n_served n) \<le> 2 ^ 32" "length (reports (n_out n)) \<le> 2 ^ 32"
  shows "\<exists>i j sa t. request_at (n_sent n) (n_served n) i j sa t \<and>
    ts1 (r_info (reports (n_out n) ! k)) = fst (n_sent n ! i) \<and> ts2 (r_info (reports (n_out n) ! k)) = t \<and>
    r_loss_there (reports (n_out n) ! k) = int i - int j \<and>
    r_loss_back (reports (n_out n) ! k) = int j - int k"
proof -
  obtain i j sa t where q: "request_at (n_sent n) (n_served n) i j sa t"
    and r: "true_report (probe_id now) (n_sent n) (n_served n) k (reports (n_out n) ! k) i j"
    using net_reach_ok [OF assms(6) network_start_ok [OF assms(1-5)]] assms(7)
    unfolding network_ok_def meter_ok_def true_report_def by blast
  have "i < 2 ^ 32" "j < 2 ^ 32" "k < 2 ^ 32" "j < length (n_served n)"
    using request_at_bounds [OF q] assms(7,9-11) by linarith+
  then show ?thesis
    using r q by (intro exI [of _ i] exI [of _ j] exI [of _ sa] exI [of _ t])
      (auto simp: true_report_def request_at_def serial_position [OF assms(8)] uint_of_nat_small)
qed

theorem network_loss_columns_witness:
  "\<exists>(n :: network) j. length (reports (n_out n)) = 2 \<and> r_loss_there (reports (n_out n) ! 1) = - int j \<and>
    r_loss_back (reports (n_out n) ! 1) = int j - 1"
proof -
  let ?t = "\<lparr>tv_sec = 9, tv_nsec = 5\<rparr>"
  obtain meter0 n where m: "m_seq3 meter0 = 0"
    and n: "net_reach 24 1000 0 ?t (network_start 24 (replicate 65536 0) ?t init_server meter0) n"
      "length (n_sent n) = 1" "map (\<lambda>(d, sa, t). t) (n_served n) = [?t, ?t]" "length (reports (n_out n)) = 2"
    using duplicate_run by (elim exE conjE)
  have l: "length (n_served n) = 2"
    using arg_cong [OF n(3), of length] by simp
  have g: "no_long_gap (map (\<lambda>(d, sa, t). t) (n_served n))"
    unfolding n(3) by (simp add: timespec_diff_def s64_def)
  obtain i j sa t where q: "request_at (n_sent n) (n_served n) i j sa t"
      "r_loss_there (reports (n_out n) ! 1) = int i - int j"
      "r_loss_back (reports (n_out n) ! 1) = int j - int 1"
    using network_loss_columns [OF _ _ _ _ m n(1) _ g, of 1] by (auto simp: n(2,4) l init_server_def)
  moreover have "i = 0"
    using request_at_bounds [OF q(1)] n(2) by simp
  ultimately show ?thesis
    using n(4) by (intro exI [of _ n] exI [of _ j]) simp
qed

end
