(* ===== verification/Xor_Hash.thy ===== *)
theory Xor_Hash
  imports Prelude
begin

text \<open>
  The checker state of \<open>fstest.c\<close>: nine bytes of exclusive or checksums over the contents of
  the file, eight of them over the bytes whose position has a given bit set and one over all
  bytes. \<open>update_xor\<close> adds a byte, and removes it when it is applied again; this is stated as
  the locale \<open>toggle_hash\<close>, which the model of the code interprets. The lemmas turn a loop of
  updates into an exclusive or sum over the positions.
\<close>

section \<open>The state and its update\<close>

record chk_state =
  xors :: "byte list"

definition chk_ok :: "chk_state \<Rightarrow> bool" where
  "chk_ok s \<longleftrightarrow> length (xors s) = 9"

definition chk_zero :: chk_state where
  "chk_zero = \<lparr>xors = [0, 0, 0, 0, 0, 0, 0, 0, 0]\<rparr>"

definition update_xor :: "chk_state \<Rightarrow> byte \<Rightarrow> int \<Rightarrow> chk_state" where
  "update_xor s v pos =
     (let s8 = foldl (\<lambda>s i.
          let vv = (if pos AND push_bit i 1 \<noteq> 0 then v else 0)
          in s\<lparr>xors := (xors s)[i := xors s ! i XOR vv]\<rparr>) s [0..<8]
      in s8\<lparr>xors := (xors s8)[8 := xors s8 ! 8 XOR v]\<rparr>)"

text \<open>The loop over a buffer: \<open>for (i = 0; i < len; ++i) update_xor(st, buf[i], pos + i)\<close>.\<close>

definition update_block :: "chk_state \<Rightarrow> byte list \<Rightarrow> int \<Rightarrow> nat \<Rightarrow> chk_state" where
  "update_block s buf pos len = foldl (\<lambda>s i. update_xor s (buf ! i) (pos + int i)) s [0..<len]"

section \<open>What one update does\<close>

text \<open>Whether checksum \<open>k\<close> covers position \<open>pos\<close>.\<close>

definition covers :: "nat \<Rightarrow> int \<Rightarrow> bool" where
  "covers k pos \<longleftrightarrow> k = 8 \<or> bit pos k"

lemma and_push_bit_1: "pos AND push_bit i 1 \<noteq> 0 \<longleftrightarrow> bit pos i" for pos :: int
  by (auto simp: push_bit_eq_mult bit_iff_and_push_bit_not_eq_0)

lemma update_loop:
  "n \<le> length (xors s) \<Longrightarrow>
   foldl (\<lambda>s i. s\<lparr>xors := (xors s)[i := xors s ! i XOR f i]\<rparr>) s [0..<n]
     = s\<lparr>xors := map (\<lambda>i. if i < n then xors s ! i XOR f i else xors s ! i) [0..<length (xors s)]\<rparr>"
proof (induction n)
  case 0
  then show ?case by (simp add: map_nth)
next
  case (Suc n)
  then show ?case
    by (auto intro!: arg_cong [where f = "\<lambda>x. s\<lparr>xors := x\<rparr>"] nth_equalityI simp: nth_list_update)
qed

lemma update_xor_eq:
  assumes "chk_ok s"
  shows "update_xor s v pos
     = s\<lparr>xors := map (\<lambda>k. xors s ! k XOR (if covers k pos then v else 0)) [0..<9]\<rparr>"
proof -
  let ?f = "\<lambda>i. if bit pos i then v else 0"
  let ?s8 = "s\<lparr>xors := map (\<lambda>i. if i < 8 then xors s ! i XOR ?f i else xors s ! i) [0..<9]\<rparr>"
  have l: "length (xors s) = 9"
    using assms by (simp add: chk_ok_def)
  then have "8 \<le> length (xors s)" by simp
  from update_loop [OF this, of ?f]
  have "update_xor s v pos = ?s8\<lparr>xors := (xors ?s8)[8 := xors ?s8 ! 8 XOR v]\<rparr>"
    unfolding update_xor_def and_push_bit_1 Let_def l by simp
  also have "(xors ?s8)[8 := xors ?s8 ! 8 XOR v]
      = map (\<lambda>k. xors s ! k XOR (if covers k pos then v else 0)) [0..<9]"
    by (rule nth_equalityI) (auto simp: nth_list_update covers_def simp del: upt_Suc)
  finally show ?thesis by simp
qed

lemma update_xor_ok [simp]: "chk_ok s \<Longrightarrow> chk_ok (update_xor s v pos)"
  by (simp add: update_xor_eq) (simp add: chk_ok_def)

lemma update_xor_nth:
  "chk_ok s \<Longrightarrow> k < 9 \<Longrightarrow>
   xors (update_xor s v pos) ! k = xors s ! k XOR (if covers k pos then v else 0)"
  by (simp add: update_xor_eq del: upt_Suc)

lemma chk_eqI: "chk_ok s \<Longrightarrow> chk_ok t \<Longrightarrow> (\<And>k. k < 9 \<Longrightarrow> xors s ! k = xors t ! k) \<Longrightarrow> s = t"
  by (rule chk_state.equality) (auto simp: chk_ok_def intro: nth_equalityI)

section \<open>Toggling\<close>

locale toggle_hash =
  fixes toggle :: "'s \<Rightarrow> 'v \<Rightarrow> 'p \<Rightarrow> 's"
    and ok :: "'s \<Rightarrow> bool"
  assumes toggle_ok: "ok s \<Longrightarrow> ok (toggle s v p)"
    and toggle_commute: "ok s \<Longrightarrow> toggle (toggle s v p) w q = toggle (toggle s w q) v p"
    and toggle_cancel: "ok s \<Longrightarrow> toggle (toggle s v p) v p = s"
begin

definition toggles :: "'s \<Rightarrow> ('v \<times> 'p) list \<Rightarrow> 's" where
  "toggles s vps = foldl (\<lambda>s (v, p). toggle s v p) s vps"

lemma toggles_ok: "ok s \<Longrightarrow> ok (toggles s vps)"
  by (induction vps arbitrary: s) (auto simp: toggles_def toggle_ok)

lemma toggles_Cons: "toggles s ((v, p) # vps) = toggles (toggle s v p) vps"
  by (simp add: toggles_def)

lemma toggles_commute: "ok s \<Longrightarrow> toggles (toggle s v p) vps = toggle (toggles s vps) v p"
proof (induction vps arbitrary: s)
  case Nil
  then show ?case by (simp add: toggles_def)
next
  case (Cons x vps)
  obtain w q where "x = (w, q)" by (cases x)
  with Cons toggle_commute [of s v p w q] show ?case by (simp add: toggles_Cons toggle_ok)
qed

text \<open>Adding a list of bytes a second time, in the same order, removes them all.\<close>

lemma toggles_cancel: "ok s \<Longrightarrow> toggles (toggles s vps) vps = s"
proof (induction vps arbitrary: s)
  case Nil
  then show ?case by (simp add: toggles_def)
next
  case (Cons x vps)
  obtain v p where x: "x = (v, p)" by (cases x)
  have "toggles (toggles s (x # vps)) (x # vps) = toggles (toggle (toggles (toggle s v p) vps) v p) vps"
    by (simp add: x toggles_Cons)
  also have "\<dots> = toggle (toggles (toggles (toggle s v p) vps) vps) v p"
    using Cons.prems by (simp add: toggles_commute toggles_ok toggle_ok)
  also have "\<dots> = s"
    using Cons by (simp add: toggle_ok toggle_cancel)
  finally show ?case .
qed

lemma toggles_swap: "ok s \<Longrightarrow> toggles (toggles s xs) ys = toggles (toggles s ys) xs"
proof (induction xs arbitrary: s)
  case Nil
  then show ?case by (simp add: toggles_def)
next
  case (Cons x xs)
  obtain v p where x: "x = (v, p)" by (cases x)
  from Cons show ?case
    by (simp add: x toggles_Cons toggle_ok toggles_ok toggles_commute)
qed

end

lemma update_xor_commute:
  "chk_ok s \<Longrightarrow> update_xor (update_xor s v p) w q = update_xor (update_xor s w q) v p"
  by (rule chk_eqI) (simp_all add: update_xor_nth ac_simps)

lemma update_xor_cancel: "chk_ok s \<Longrightarrow> update_xor (update_xor s v p) v p = s"
  by (rule chk_eqI) (simp_all add: update_xor_nth xor.assoc)

interpretation chk: toggle_hash update_xor chk_ok
  by unfold_locales (simp_all add: update_xor_commute update_xor_cancel)

lemma update_block_toggles:
  "update_block s buf pos len = chk.toggles s (map (\<lambda>i. (buf ! i, pos + int i)) [0..<len])"
  by (simp add: update_block_def chk.toggles_def foldl_map)

lemma update_block_ok [simp]: "chk_ok s \<Longrightarrow> chk_ok (update_block s buf pos len)"
  by (simp add: update_block_toggles chk.toggles_ok)

section \<open>Checksums as sums\<close>

interpretation xsum: comm_monoid_set "(XOR) :: byte \<Rightarrow> byte \<Rightarrow> byte" 0
  by unfold_locales

lemma xor_zero_iff: "a XOR b = 0 \<longleftrightarrow> a = b" for a b :: byte
  by (metis xor.assoc xor.left_neutral xor.right_neutral xor_self_eq)

text \<open>Checksum \<open>k\<close> of the bytes \<open>f\<close> on a set of positions.\<close>

definition checksum :: "(nat \<Rightarrow> byte) \<Rightarrow> nat set \<Rightarrow> nat \<Rightarrow> byte" where
  "checksum f A k = xsum.F (\<lambda>p. if covers k (int p) then f p else 0) A"

lemma update_block_nth:
  assumes "chk_ok s" "k < 9"
  shows "xors (update_block s buf (int pos) len) ! k
    = xors s ! k XOR checksum (\<lambda>p. buf ! (p - pos)) {pos..<pos + len} k"
proof (induction len)
  case 0
  then show ?case by (simp add: update_block_def checksum_def)
next
  case (Suc len)
  have "update_block s buf (int pos) (Suc len)
      = update_xor (update_block s buf (int pos) len) (buf ! len) (int pos + int len)"
    by (simp add: update_block_def)
  moreover have "{pos..<pos + Suc len} = insert (pos + len) {pos..<pos + len}"
    by auto
  ultimately show ?case
    using Suc assms by (simp add: update_xor_nth checksum_def ac_simps)
qed

lemma checksum_union:
  "finite A \<Longrightarrow> finite B \<Longrightarrow> A \<inter> B = {} \<Longrightarrow> checksum f (A \<union> B) k = checksum f A k XOR checksum f B k"
  by (simp add: checksum_def xsum.union_disjoint)

lemma checksum_cong: "(\<And>p. p \<in> A \<Longrightarrow> f p = g p) \<Longrightarrow> checksum f A k = checksum g A k"
  by (auto simp: checksum_def intro: xsum.cong)

lemma checksum_zero: "(\<And>p. p \<in> A \<Longrightarrow> f p = 0) \<Longrightarrow> checksum f A k = 0"
  by (auto simp: checksum_def intro: xsum.neutral)

lemma checksum_xor: "checksum f A k XOR checksum g A k = checksum (\<lambda>p. f p XOR g p) A k"
  by (auto simp: checksum_def simp flip: xsum.distrib intro!: xsum.cong)

text \<open>Replacing the bytes of a block changes a checksum by the block's old and new sums.\<close>

lemma checksum_replace:
  assumes "finite A" "B \<subseteq> A" "\<And>p. p \<in> A - B \<Longrightarrow> g p = f p"
  shows "checksum f A k XOR checksum f B k XOR checksum g B k = checksum g A k"
proof -
  have A: "A = (A - B) \<union> B" "finite (A - B)" "finite B" "(A - B) \<inter> B = {}"
    using assms(1,2) finite_subset by auto
  then have "checksum f A k = checksum f (A - B) k XOR checksum f B k"
      "checksum g A k = checksum g (A - B) k XOR checksum g B k"
    using checksum_union by metis+
  moreover have "checksum f (A - B) k = checksum g (A - B) k"
    using assms(3) by (intro checksum_cong) simp
  ultimately show ?thesis
    by (simp add: xor.assoc xor.left_commute)
qed

lemma checksum_single:
  assumes "finite A" "q \<in> A" "\<And>p. p \<in> A \<Longrightarrow> p \<noteq> q \<Longrightarrow> f p = 0"
  shows "checksum f A k = (if covers k (int q) then f q else 0)"
proof -
  have "A = {q} \<union> (A - {q})"
    using assms(2) by auto
  then have "checksum f A k = checksum f {q} k XOR checksum f (A - {q}) k"
    using assms(1) checksum_union [of "{q}" "A - {q}" f k] by simp
  moreover have "checksum f (A - {q}) k = 0"
    using assms(3) by (intro checksum_zero) simp
  ultimately show ?thesis
    by (simp add: checksum_def)
qed

lemma checksum_pair:
  assumes "finite A" "q \<in> A" "r \<in> A" "q \<noteq> r" "\<And>p. p \<in> A \<Longrightarrow> p \<noteq> q \<Longrightarrow> p \<noteq> r \<Longrightarrow> f p = 0"
  shows "checksum f A k = (if covers k (int q) then f q else 0) XOR (if covers k (int r) then f r else 0)"
proof -
  have "A = {q} \<union> (A - {q})"
    using assms(2) by auto
  then have "checksum f A k = checksum f {q} k XOR checksum f (A - {q}) k"
    using assms(1) checksum_union [of "{q}" "A - {q}" f k] by simp
  moreover have "checksum f (A - {q}) k = (if covers k (int r) then f r else 0)"
    using assms by (intro checksum_single) auto
  ultimately show ?thesis
    by (simp add: checksum_def)
qed

section \<open>Blocks cancel\<close>

text \<open>
  Adding the same block at the same position a second time, with any number of other blocks
  added in between, takes it out of the nine checksums again; this is why reading the file back
  brings the state to zero.
\<close>
theorem update_block_cancels:
  assumes "chk_ok s"
  shows "update_block (update_block (update_block s buf pos len) buf' pos' len') buf pos len
    = update_block s buf' pos' len'"
proof -
  let ?a = "map (\<lambda>i. (buf ! i, pos + int i)) [0..<len]"
  let ?b = "map (\<lambda>i. (buf' ! i, pos' + int i)) [0..<len']"
  have "chk.toggles (chk.toggles (chk.toggles s ?a) ?b) ?a = chk.toggles (chk.toggles (chk.toggles s ?b) ?a) ?a"
    using assms by (simp add: chk.toggles_swap)
  also have "\<dots> = chk.toggles s ?b"
    using assms by (simp add: chk.toggles_cancel chk.toggles_ok)
  finally show ?thesis
    by (simp add: update_block_toggles)
qed

theorem update_block_cancels_witness:
  "update_block (update_block (update_block chk_zero [1, 2] 5 2) [7] 6 1) [1, 2] 5 2
     = update_block chk_zero [7] 6 1"
  by (rule update_block_cancels) (simp add: chk_ok_def chk_zero_def)

end
