(* ===== verification/File_Ops.thy ===== *)
theory File_Ops
  imports Prelude "HOL-Library.Monad_Syntax"
begin

text \<open>
  \<open>safe_fileop\<close> of \<open>fstest.c\<close>: calls \<open>pread\<close>, \<open>pwrite\<close> or \<open>read\<close> until the whole buffer is
  transferred, retrying interrupted calls. The transfer function is an argument over an
  abstract world \<open>'w\<close>; the loop may never end, so its result is an \<open>option\<close>. The locales state
  the documented behaviour of the system calls that the program relies on. A world with an
  arbitrary finite schedule of short transfers, interruptions and hard errors provides them.
\<close>

section \<open>The loop\<close>

datatype errno = EAGAIN | EINTR | EOTHER int

text \<open>
  \<open>ret >= 0\<close> is \<open>Done\<close>, \<open>ret = -1\<close> is \<open>Err\<close>. A transfer gets the rest of the buffer and the
  position, and returns the new contents of the rest of the buffer.
\<close>

datatype io_ret = Done nat | Err errno

type_synonym 'w pfunc = "'w \<Rightarrow> byte list \<Rightarrow> int \<Rightarrow> 'w \<times> byte list \<times> io_ret"

text \<open>\<open>front\<close> is the part of the buffer before the pointer \<open>buf\<close>, \<open>rest\<close> the part still to do.\<close>

partial_function (option) fileop_loop ::
    "'w pfunc \<Rightarrow> 'w \<Rightarrow> int \<Rightarrow> byte list \<Rightarrow> byte list \<Rightarrow> ('w \<times> byte list \<times> int) option" where
  "fileop_loop func w ppos front rest =
     (if rest = [] then Some (w, front, 0)
      else case func w rest ppos of (w1, rest1, ret) \<Rightarrow>
        (case ret of
           Done n \<Rightarrow>
             if n = 0 then Some (w1, front @ replicate (length rest) 0, 0)
             else fileop_loop func w1 (ppos + int n) (front @ take n rest1) (drop n rest1)
         | Err e \<Rightarrow>
             if e = EAGAIN \<or> e = EINTR then fileop_loop func w1 ppos front rest1
             else Some (w1, front @ rest1, 1)))"

declare fileop_loop.simps [code]

text \<open>The first \<open>len\<close> bytes of \<open>buf\<close> are transferred. The result is nonzero on failure.\<close>

definition safe_fileop ::
    "'w pfunc \<Rightarrow> 'w \<Rightarrow> int \<Rightarrow> nat \<Rightarrow> byte list \<Rightarrow> ('w \<times> byte list \<times> int) option" where
  "safe_fileop func w pos len buf = do {
     (w1, b, r) \<leftarrow> fileop_loop func w pos [] (take len buf);
     Some (w1, b @ drop len buf, r)
   }"

section \<open>Contracts of the transfer functions\<close>

text \<open>
  Every call transfers at most what was asked for and keeps the length of the buffer; only
  finitely many interruptions are pending.
\<close>

locale fileop =
  fixes func :: "'w pfunc" and pending :: "'w \<Rightarrow> nat"
  assumes transfer_len: "func w buf pos = (w', buf', r) \<Longrightarrow> length buf' = length buf"
    and transfer_le: "func w buf pos = (w', buf', Done n) \<Longrightarrow> n \<le> length buf"
    and transfer_pending: "func w buf pos = (w', buf', Done n) \<Longrightarrow> pending w' \<le> pending w"
    and retry_pending: "func w buf pos = (w', buf', Err e) \<Longrightarrow> e = EAGAIN \<or> e = EINTR \<Longrightarrow>
      pending w' < pending w"
begin

lemma loop_total:
  "\<exists>w' b r. fileop_loop func w pos front rest = Some (w', b, r) \<and> length b = length front + length rest
    \<and> (r = 0 \<or> r = 1)"
proof (induction "pending w + length rest" arbitrary: w pos front rest rule: less_induct)
  case less
  show ?case
  proof (cases "rest = []")
    case True
    then show ?thesis by (simp add: fileop_loop.simps)
  next
    case rest: False
    obtain w1 rest1 ret where f: "func w rest pos = (w1, rest1, ret)"
      by (metis prod_cases3)
    note l = transfer_len [OF f]
    show ?thesis
    proof (cases ret)
      case (Done n)
      note d = transfer_le [OF f [unfolded Done]] transfer_pending [OF f [unfolded Done]]
      show ?thesis
      proof (cases "n = 0")
        case True
        with rest f Done show ?thesis by (simp add: fileop_loop.simps)
      next
        case False
        then have "pending w1 + length (drop n rest1) < pending w + length rest"
          using rest d l by simp
        from less.hyps [OF this, of "pos + int n" "front @ take n rest1"] show ?thesis
          using rest f Done False d l by (subst fileop_loop.simps) auto
      qed
    next
      case (Err e)
      show ?thesis
      proof (cases "e = EAGAIN \<or> e = EINTR")
        case True
        with retry_pending [OF f [unfolded Err]] l
        have "pending w1 + length rest1 < pending w + length rest" by simp
        from less.hyps [OF this, of pos front] show ?thesis
          using rest f Err True l by (subst fileop_loop.simps) auto
      next
        case False
        with rest f Err l show ?thesis by (subst fileop_loop.simps) auto
      qed
    qed
  qed
qed

lemma safe_total:
  "\<exists>w' b r. safe_fileop func w pos len buf = Some (w', b, r) \<and> length b = length buf \<and> (r = 0 \<or> r = 1)"
  using loop_total [of w pos "[]" "take len buf"] by (auto simp: safe_fileop_def)

end

text \<open>
  \<open>view w\<close> is the contents of the file, a byte for every position with zeros past the end;
  \<open>span f pos n\<close> are the \<open>n\<close> bytes of \<open>f\<close> from \<open>pos\<close>, and \<open>patch pos src f\<close> is \<open>f\<close> with
  \<open>src\<close> stored at \<open>pos\<close>.
\<close>

definition span :: "(nat \<Rightarrow> byte) \<Rightarrow> nat \<Rightarrow> nat \<Rightarrow> byte list" where
  "span f pos n = map (\<lambda>i. f (pos + i)) [0..<n]"

definition patch :: "nat \<Rightarrow> byte list \<Rightarrow> (nat \<Rightarrow> byte) \<Rightarrow> nat \<Rightarrow> byte" where
  "patch pos src f p = (if pos \<le> p \<and> p < pos + length src then src ! (p - pos) else f p)"

lemma length_span [simp]: "length (span f pos n) = n"
  by (simp add: span_def)

lemma nth_span [simp]: "i < n \<Longrightarrow> span f pos n ! i = f (pos + i)"
  by (simp add: span_def)

lemma span_add: "span f pos (m + n) = span f pos m @ span f (pos + m) n"
  by (rule nth_equalityI) (auto simp: nth_append)

lemma span_eof: "(\<And>p. pos \<le> p \<Longrightarrow> f p = 0) \<Longrightarrow> span f pos n = replicate n 0"
  by (rule nth_equalityI) auto

lemma patch_Nil [simp]: "patch pos [] f = f"
  by (rule ext) (auto simp: patch_def)

lemma patch_append: "patch (pos + length a) b (patch pos a f) = patch pos (a @ b) f"
  by (rule ext) (auto simp: patch_def nth_append)

locale pread_op = fileop func pending for func :: "'w pfunc" and pending +
  fixes view :: "'w \<Rightarrow> nat \<Rightarrow> byte"
  assumes read_data: "func w buf (int pos) = (w', buf', Done n) \<Longrightarrow> take n buf' = span (view w) pos n"
    and read_eof: "func w buf (int pos) = (w', buf', Done 0) \<Longrightarrow> buf \<noteq> [] \<Longrightarrow> pos \<le> p \<Longrightarrow> view w p = 0"
    and read_view: "func w buf q = (w', buf', r) \<Longrightarrow> view w' = view w"
begin

lemma loop_reads:
  "fileop_loop func w (int pos) front rest = Some (w', b, r) \<Longrightarrow>
   view w' = view w \<and> (r = 0 \<longrightarrow> b = front @ span (view w) pos (length rest))"
proof (induction "pending w + length rest" arbitrary: w pos front rest rule: less_induct)
  case less
  show ?case
  proof (cases "rest = []")
    case True
    with less.prems show ?thesis by (simp add: fileop_loop.simps span_def)
  next
    case rest: False
    obtain w1 rest1 ret where f: "func w rest (int pos) = (w1, rest1, ret)"
      by (metis prod_cases3)
    note l = transfer_len [OF f] read_view [OF f]
    show ?thesis
    proof (cases ret)
      case (Done n)
      note d = transfer_le [OF f [unfolded Done]] transfer_pending [OF f [unfolded Done]]
      show ?thesis
      proof (cases "n = 0")
        case True
        then have "view w p = 0" if "pos \<le> p" for p
          using read_eof f Done rest that by blast
        then have "span (view w) pos (length rest) = replicate (length rest) 0"
          by (rule span_eof)
        with True less.prems rest f Done l show ?thesis
          by (simp add: fileop_loop.simps)
      next
        case False
        have "pending w1 + length (drop n rest1) < pending w + length rest"
          using rest d l False by simp
        moreover have "fileop_loop func w1 (int (pos + n)) (front @ take n rest1) (drop n rest1) = Some (w', b, r)"
          using less.prems rest f Done False by (subst (asm) fileop_loop.simps) simp
        ultimately have "view w' = view w1 \<and> (r = 0 \<longrightarrow>
            b = (front @ take n rest1) @ span (view w1) (pos + n) (length (drop n rest1)))"
          by (rule less.hyps)
        then show ?thesis
          using read_data [OF f [unfolded Done]] l d span_add [of "view w" pos n "length rest - n"] by auto
      qed
    next
      case (Err e)
      show ?thesis
      proof (cases "e = EAGAIN \<or> e = EINTR")
        case True
        with retry_pending [OF f [unfolded Err]] l
        have "pending w1 + length rest1 < pending w + length rest" by simp
        moreover have "fileop_loop func w1 (int pos) front rest1 = Some (w', b, r)"
          using less.prems rest f Err True by (subst (asm) fileop_loop.simps) auto
        ultimately have "view w' = view w1 \<and> (r = 0 \<longrightarrow> b = front @ span (view w1) pos (length rest1))"
          by (rule less.hyps)
        with l show ?thesis by simp
      next
        case False
        with less.prems rest f Err l show ?thesis by (subst (asm) fileop_loop.simps) auto
      qed
    qed
  qed
qed

lemma safe_reads:
  assumes "safe_fileop func w (int pos) len buf = Some (w', b, r)" "len \<le> length buf"
  shows "view w' = view w" and "r = 0 \<Longrightarrow> b = span (view w) pos len @ drop len buf"
  using assms loop_reads [of w pos "[]" "take len buf"]
  by (auto simp: safe_fileop_def split: Option.bind_splits)

end

locale pwrite_op = fileop func pending for func :: "'w pfunc" and pending +
  fixes view :: "'w \<Rightarrow> nat \<Rightarrow> byte"
  assumes write_data: "func w buf (int pos) = (w', buf', Done n) \<Longrightarrow> view w' = patch pos (take n buf) (view w)"
    and write_keeps: "func w buf q = (w', buf', r) \<Longrightarrow> buf' = buf"
    and write_error: "func w buf q = (w', buf', Err e) \<Longrightarrow> view w' = view w"
begin

text \<open>
  A write may also transfer nothing. The code takes that for the end of the file: it stops with
  success and wipes what is left in the buffer. So a prefix of the data is written, and the buffer holds
  that prefix and zeros.
\<close>

lemma loop_writes:
  "fileop_loop func w (int pos) front rest = Some (w', b, r) \<Longrightarrow>
   (r = 0 \<longrightarrow> (\<exists>m \<le> length rest. view w' = patch pos (take m rest) (view w) \<and>
      b = front @ take m rest @ replicate (length rest - m) 0 \<and>
      (m < length rest \<longrightarrow> (\<exists>u u' bs q. bs \<noteq> [] \<and> func u bs q = (u', bs, Done 0))))) \<and>
   (r \<noteq> 0 \<longrightarrow> b = front @ rest)"
proof (induction "pending w + length rest" arbitrary: w pos front rest rule: less_induct)
  case less
  show ?case
  proof (cases "rest = []")
    case True
    with less.prems show ?thesis by (simp add: fileop_loop.simps)
  next
    case rest: False
    obtain w1 rest1 ret where f: "func w rest (int pos) = (w1, rest1, ret)"
      by (metis prod_cases3)
    then have k: "rest1 = rest"
      by (rule write_keeps)
    show ?thesis
    proof (cases ret)
      case (Done n)
      note d = transfer_le [OF f [unfolded Done]] transfer_pending [OF f [unfolded Done]]
        write_data [OF f [unfolded Done]]
      show ?thesis
      proof (cases "n = 0")
        case True
        then have "w' = w1" "b = front @ replicate (length rest) 0" "r = 0"
          using less.prems rest f Done by (simp_all add: fileop_loop.simps [of _ w])
        moreover have "func w rest (int pos) = (w1, rest, Done 0)"
          using f Done k True by simp
        ultimately show ?thesis
          using rest d True by (intro conjI impI exI [of _ 0]) auto
      next
        case False
        have "pending w1 + length (drop n rest) < pending w + length rest"
          using rest d False by simp
        moreover have "fileop_loop func w1 (int (pos + n)) (front @ take n rest) (drop n rest) = Some (w', b, r)"
          using less.prems rest f Done False k by (subst (asm) fileop_loop.simps) simp
        ultimately have ih: "(r = 0 \<longrightarrow> (\<exists>m \<le> length (drop n rest).
            view w' = patch (pos + n) (take m (drop n rest)) (view w1) \<and>
            b = (front @ take n rest) @ take m (drop n rest) @ replicate (length (drop n rest) - m) 0 \<and>
            (m < length (drop n rest) \<longrightarrow> (\<exists>u u' bs q. bs \<noteq> [] \<and> func u bs q = (u', bs, Done 0))))) \<and>
            (r \<noteq> 0 \<longrightarrow> b = (front @ take n rest) @ drop n rest)"
          by (rule less.hyps)
        have "patch (pos + n) (take m (drop n rest)) (view w1) = patch pos (take (n + m) rest) (view w)" for m
          using d patch_append [of pos "take n rest" "take m (drop n rest)"] by (simp add: take_add)
        with ih show ?thesis
        proof (intro conjI impI)
          assume "r = 0"
          with ih obtain m where m: "m \<le> length (drop n rest)"
              "view w' = patch (pos + n) (take m (drop n rest)) (view w1)"
              "b = (front @ take n rest) @ take m (drop n rest) @ replicate (length (drop n rest) - m) 0"
              "m < length (drop n rest) \<longrightarrow> (\<exists>u u' bs q. bs \<noteq> [] \<and> func u bs q = (u', bs, Done 0))"
            by blast
          show "\<exists>m \<le> length rest. view w' = patch pos (take m rest) (view w) \<and>
              b = front @ take m rest @ replicate (length rest - m) 0 \<and>
              (m < length rest \<longrightarrow> (\<exists>u u' bs q. bs \<noteq> [] \<and> func u bs q = (u', bs, Done 0)))"
            using m d patch_append [of pos "take n rest" "take m (drop n rest)"]
            by (intro exI [of _ "n + m"]) (auto simp: take_add)
        qed simp
      qed
    next
      case (Err e)
      show ?thesis
      proof (cases "e = EAGAIN \<or> e = EINTR")
        case True
        with retry_pending [OF f [unfolded Err]]
        have "pending w1 + length rest < pending w + length rest" by simp
        moreover have "fileop_loop func w1 (int pos) front rest = Some (w', b, r)"
          using less.prems rest f Err True k by (subst (asm) fileop_loop.simps) auto
        ultimately show ?thesis
          using less.hyps write_error [OF f [unfolded Err]] by metis
      next
        case False
        with less.prems rest f Err k show ?thesis by (subst (asm) fileop_loop.simps) auto
      qed
    qed
  qed
qed

lemma safe_writes_prefix:
  assumes "safe_fileop func w (int pos) len buf = Some (w', b, r)" "len \<le> length buf"
  shows "r \<noteq> 0 \<Longrightarrow> b = buf"
    and "r = 0 \<Longrightarrow> \<exists>m \<le> len. view w' = patch pos (take m buf) (view w) \<and>
      b = take m buf @ replicate (len - m) 0 @ drop len buf \<and>
      (m < len \<longrightarrow> (\<exists>u u' bs q. bs \<noteq> [] \<and> func u bs q = (u', bs, Done 0)))"
proof -
  obtain b' where b: "b = b' @ drop len buf"
    and l: "fileop_loop func w (int pos) [] (take len buf) = Some (w', b', r)"
    using assms(1) by (auto simp: safe_fileop_def split: Option.bind_splits)
  show "r \<noteq> 0 \<Longrightarrow> b = buf"
    using loop_writes [OF l] b by simp
  assume "r = 0"
  then have pre: "\<exists>m \<le> length (take len buf). view w' = patch pos (take m (take len buf)) (view w) \<and>
      b' = [] @ take m (take len buf) @ replicate (length (take len buf) - m) 0 \<and>
      (m < length (take len buf) \<longrightarrow> (\<exists>u u' bs q. bs \<noteq> [] \<and> func u bs q = (u', bs, Done 0)))"
    using loop_writes [OF l] by blast
  have len: "length (take len buf) = len"
    using assms(2) by simp
  obtain m where "m \<le> len" "view w' = patch pos (take m (take len buf)) (view w)"
      "b' = take m (take len buf) @ replicate (len - m) 0"
      "m < len \<longrightarrow> (\<exists>u u' bs q. bs \<noteq> [] \<and> func u bs q = (u', bs, Done 0))"
    using pre unfolding len append_Nil by blast
  then show "\<exists>m \<le> len. view w' = patch pos (take m buf) (view w) \<and>
      b = take m buf @ replicate (len - m) 0 @ drop len buf \<and>
      (m < len \<longrightarrow> (\<exists>u u' bs q. bs \<noteq> [] \<and> func u bs q = (u', bs, Done 0)))"
    using b by (intro exI [of _ m]) (simp add: min_absorb1)
qed

end

text \<open>Regular files do not do that: a write of at least one byte transfers something or fails.\<close>

locale pwrite_full = pwrite_op +
  assumes write_some: "func w buf q = (w', buf', Done n) \<Longrightarrow> buf \<noteq> [] \<Longrightarrow> n \<noteq> 0"
begin

lemma safe_writes:
  assumes "safe_fileop func w (int pos) len buf = Some (w', b, r)" "len \<le> length buf"
  shows "b = buf" and "r = 0 \<Longrightarrow> view w' = patch pos (take len buf) (view w)"
proof -
  have "\<nexists>u u' bs q. bs \<noteq> [] \<and> func u bs q = (u', bs, Done 0)"
    using write_some by blast
  then have "r = 0 \<Longrightarrow> b = buf \<and> view w' = patch pos (take len buf) (view w)"
    using safe_writes_prefix(2) [OF assms] by (auto simp: le_less)
  then show "b = buf" "r = 0 \<Longrightarrow> view w' = patch pos (take len buf) (view w)"
    using safe_writes_prefix(1) [OF assms] by blast+
qed

end

text \<open>
  \<open>fake_pread\<close> gives \<open>read\<close> on the random source the signature of \<open>pread\<close>. Reading random bytes
  leaves the file alone.
\<close>

definition fake_pread :: "('w \<Rightarrow> byte list \<Rightarrow> 'w \<times> byte list \<times> io_ret) \<Rightarrow> 'w pfunc" where
  "fake_pread read w buf offset = read w buf"

locale random_source =
  fixes read :: "'w \<Rightarrow> byte list \<Rightarrow> 'w \<times> byte list \<times> io_ret"
    and pending :: "'w \<Rightarrow> nat"
    and view :: "'w \<Rightarrow> nat \<Rightarrow> byte"
  assumes random_len: "read w buf = (w', buf', r) \<Longrightarrow> length buf' = length buf"
    and random_le: "read w buf = (w', buf', Done n) \<Longrightarrow> n \<le> length buf"
    and random_pending: "read w buf = (w', buf', Done n) \<Longrightarrow> pending w' \<le> pending w"
    and random_retry: "read w buf = (w', buf', Err e) \<Longrightarrow> e = EAGAIN \<or> e = EINTR \<Longrightarrow>
      pending w' < pending w"
    and random_view: "read w buf = (w', buf', r) \<Longrightarrow> view w' = view w"

sublocale random_source \<subseteq> fileop "fake_pread read" pending
  by unfold_locales (auto simp: fake_pread_def dest: random_len random_le random_pending random_retry)

context random_source
begin

lemma random_loop_view:
  "fileop_loop (fake_pread read) w q front rest = Some (w', b, r) \<Longrightarrow> view w' = view w"
proof (induction "pending w + length rest" arbitrary: w q front rest rule: less_induct)
  case less
  obtain w1 rest1 ret where f: "read w rest = (w1, rest1, ret)"
    by (metis prod_cases3)
  note l = random_len [OF f] random_view [OF f]
  note loop = less.prems [unfolded fileop_loop.simps [of _ w q front rest] fake_pread_def f prod.case]
  show ?case
  proof (cases "rest = [] \<or> ret = Done 0 \<or> (\<exists>e. ret = Err (EOTHER e))")
    case True
    with loop l show ?thesis by (auto split: if_splits)
  next
    case False
    then consider n where "ret = Done n" "n \<noteq> 0" | e where "ret = Err e" "e = EAGAIN \<or> e = EINTR"
      by (cases ret) (auto, metis errno.exhaust)
    then show ?thesis
    proof cases
      case 1
      note d = random_le [OF f [unfolded 1(1)]] random_pending [OF f [unfolded 1(1)]]
      have "pending w1 + length (drop n rest1) < pending w + length rest"
        using False d l 1 by simp
      moreover have "fileop_loop (fake_pread read) w1 (q + int n) (front @ take n rest1) (drop n rest1)
          = Some (w', b, r)"
        using loop False 1 by (simp add: fake_pread_def [abs_def])
      ultimately show ?thesis
        using less.hyps l by metis
    next
      case 2
      with random_retry [OF f [unfolded 2(1)]] l
      have "pending w1 + length rest1 < pending w + length rest" by simp
      moreover have "fileop_loop (fake_pread read) w1 q front rest1 = Some (w', b, r)"
        using loop False 2 by (auto simp: fake_pread_def [abs_def])
      ultimately show ?thesis
        using less.hyps l by metis
    qed
  qed
qed

lemma random_safe_view:
  "safe_fileop (fake_pread read) w q len buf = Some (w', b, r) \<Longrightarrow> view w' = view w"
  using random_loop_view [of w q "[]" "take len buf"]
  by (auto simp: safe_fileop_def split: Option.bind_splits)

end

section \<open>A world that honours the contracts\<close>

text \<open>
  The contents of a file, the bytes the random source will deliver, and a schedule that decides what each call does: a short transfer of
  \<open>k + 1\<close> bytes, an interruption, or a hard error. After the schedule every call transfers all it
  can. Any finite behaviour of the kernel is one of these schedules.
\<close>

datatype fault = Short nat | Interrupt | Again | Broken int

record disk =
  contents :: "byte list"
  schedule :: "fault list"
  randomness :: "byte list"

definition disk_view :: "disk \<Rightarrow> nat \<Rightarrow> byte" where
  "disk_view w p = (if p < length (contents w) then contents w ! p else 0)"

definition disk_pending :: "disk \<Rightarrow> nat" where
  "disk_pending w = length (schedule w)"

text \<open>The common part: how many of \<open>m\<close> possible bytes are moved, or the error.\<close>

definition disk_next :: "disk \<Rightarrow> nat \<Rightarrow> disk \<times> io_ret" where
  "disk_next w m =
     (case schedule w of
        [] \<Rightarrow> (w, Done m)
      | Short k # fs \<Rightarrow> (w\<lparr>schedule := fs\<rparr>, Done (min (Suc k) m))
      | Interrupt # fs \<Rightarrow> (w\<lparr>schedule := fs\<rparr>, Err EINTR)
      | Again # fs \<Rightarrow> (w\<lparr>schedule := fs\<rparr>, Err EAGAIN)
      | Broken e # fs \<Rightarrow> (w\<lparr>schedule := fs\<rparr>, Err (EOTHER e)))"

definition disk_pread :: "disk pfunc" where
  "disk_pread w buf pos =
     (if pos < 0 then (w, buf, Err (EOTHER 22))
      else case disk_next w (min (length buf) (length (contents w) - nat pos)) of
        (w1, Done n) \<Rightarrow> (w1, put 0 (take n (drop (nat pos) (contents w))) buf, Done n)
      | (w1, Err e) \<Rightarrow> (w1, buf, Err e))"

definition disk_pwrite :: "disk pfunc" where
  "disk_pwrite w buf pos =
     (if pos < 0 then (w, buf, Err (EOTHER 22))
      else case disk_next w (length buf) of
        (w1, Done n) \<Rightarrow>
          (w1\<lparr>contents := put (nat pos) (take n buf)
                (contents w @ replicate (nat pos + n - length (contents w)) 0)\<rparr>, buf, Done n)
      | (w1, Err e) \<Rightarrow> (w1, buf, Err e))"

lemma disk_next_facts:
  assumes "disk_next w m = (w1, r)"
  shows "contents w1 = contents w" "r = Done n \<Longrightarrow> n \<le> m" "r = Done n \<Longrightarrow> m \<noteq> 0 \<Longrightarrow> n \<noteq> 0"
    "disk_pending w1 \<le> disk_pending w" "r = Err e \<Longrightarrow> disk_pending w1 < disk_pending w"
  using assms by (auto simp: disk_next_def disk_pending_def split: list.splits fault.splits)

definition disk_read :: "disk \<Rightarrow> byte list \<Rightarrow> disk \<times> byte list \<times> io_ret" where
  "disk_read w buf =
     (case disk_next w (min (length buf) (length (randomness w))) of
        (w1, Done n) \<Rightarrow>
          (w1\<lparr>randomness := drop n (randomness w)\<rparr>, put 0 (take n (randomness w)) buf, Done n)
      | (w1, Err e) \<Rightarrow> (w1, buf, Err e))"

lemma disk_pread_cases:
  assumes "disk_pread w buf q = (w', buf', r)"
  obtains (neg) "q < 0" "w' = w" "buf' = buf" "r = Err (EOTHER 22)"
  | (moved) n where "0 \<le> q" "r = Done n" "buf' = put 0 (take n (drop (nat q) (contents w))) buf"
      "disk_next w (min (length buf) (length (contents w) - nat q)) = (w', Done n)"
  | (failed) e where "0 \<le> q" "r = Err e" "buf' = buf"
      "disk_next w (min (length buf) (length (contents w) - nat q)) = (w', Err e)"
  using assms by (auto simp: disk_pread_def split: if_splits prod.splits io_ret.splits)

lemma disk_pwrite_cases:
  assumes "disk_pwrite w buf q = (w', buf', r)"
  obtains (neg) "q < 0" "w' = w" "buf' = buf" "r = Err (EOTHER 22)"
  | (moved) n w1 where "0 \<le> q" "r = Done n" "buf' = buf" "disk_next w (length buf) = (w1, Done n)"
      "w' = w1\<lparr>contents := put (nat q) (take n buf)
          (contents w @ replicate (nat q + n - length (contents w)) 0)\<rparr>"
  | (failed) e where "0 \<le> q" "r = Err e" "buf' = buf" "disk_next w (length buf) = (w', Err e)"
  using assms by (auto simp: disk_pwrite_def split: if_splits prod.splits io_ret.splits)

lemma disk_view_cong: "contents w' = contents w \<Longrightarrow> disk_view w' = disk_view w"
  by (auto simp: disk_view_def)

interpretation disk_rd: pread_op disk_pread disk_pending disk_view
proof unfold_locales
  fix w w' :: disk and buf buf' q r
  assume "disk_pread w buf q = (w', buf', r)"
  then show "length buf' = length buf" "disk_view w' = disk_view w"
    by (cases rule: disk_pread_cases; auto dest: disk_next_facts intro!: disk_view_cong simp: length_put)+
next
  fix w w' :: disk and buf buf' q n
  assume "disk_pread w buf q = (w', buf', Done n)"
  then show "n \<le> length buf" "disk_pending w' \<le> disk_pending w"
    by (cases rule: disk_pread_cases; auto dest: disk_next_facts)+
next
  fix w w' :: disk and buf buf' q e
  assume "disk_pread w buf q = (w', buf', Err e)" "e = EAGAIN \<or> e = EINTR"
  then show "disk_pending w' < disk_pending w"
    by (cases rule: disk_pread_cases) (auto dest: disk_next_facts)
next
  fix w w' :: disk and buf buf' pos n
  assume "disk_pread w buf (int pos) = (w', buf', Done n)"
  then show "take n buf' = span (disk_view w) pos n"
    by (cases rule: disk_pread_cases)
      (auto simp: put_def disk_view_def intro!: nth_equalityI dest!: disk_next_facts(2))
next
  fix w w' :: disk and buf buf' pos p
  assume "disk_pread w buf (int pos) = (w', buf', Done 0)" "buf \<noteq> []" "pos \<le> p"
  then show "disk_view w p = 0"
    by (cases rule: disk_pread_cases) (auto simp: disk_view_def dest!: disk_next_facts(3))
qed

lemma disk_pwrite_view:
  "pos + length src \<le> length xs \<Longrightarrow> disk_view (w\<lparr>contents := put pos src xs\<rparr>)
     = patch pos src (disk_view (w\<lparr>contents := xs\<rparr>))"
  by (rule ext) (auto simp: disk_view_def patch_def put_def nth_append)

lemma disk_view_pad: "disk_view (w\<lparr>contents := contents v @ replicate k 0\<rparr>) = disk_view v"
  by (rule ext) (auto simp: disk_view_def nth_append)

interpretation disk_wr: pwrite_full disk_pwrite disk_pending disk_view
proof unfold_locales
  fix w w' :: disk and buf buf' q r
  assume "disk_pwrite w buf q = (w', buf', r)"
  then show "length buf' = length buf" "buf' = buf"
    by (cases rule: disk_pwrite_cases; simp)+
next
  fix w w' :: disk and buf buf' q n
  assume "disk_pwrite w buf q = (w', buf', Done n)"
  then show "n \<le> length buf" "disk_pending w' \<le> disk_pending w"
    by (cases rule: disk_pwrite_cases; auto dest: disk_next_facts simp: disk_pending_def)+
next
  fix w w' :: disk and buf buf' q e
  assume "disk_pwrite w buf q = (w', buf', Err e)" "e = EAGAIN \<or> e = EINTR"
  then show "disk_pending w' < disk_pending w"
    by (cases rule: disk_pwrite_cases) (auto dest: disk_next_facts)
next
  fix w w' :: disk and buf buf' q n
  assume "disk_pwrite w buf q = (w', buf', Done n)" "buf \<noteq> []"
  then show "n \<noteq> 0"
    by (cases rule: disk_pwrite_cases) (auto dest!: disk_next_facts(3))
next
  fix w w' :: disk and buf buf' pos n
  assume "disk_pwrite w buf (int pos) = (w', buf', Done n)"
  then show "disk_view w' = patch pos (take n buf) (disk_view w)"
  proof (cases rule: disk_pwrite_cases)
    case (moved m w1)
    then have "m = n" "n \<le> length buf"
      using disk_next_facts(2) by auto
    with moved show ?thesis
      by (simp add: disk_pwrite_view disk_view_pad)
  qed simp_all
next
  fix w w' :: disk and buf buf' q e
  assume "disk_pwrite w buf q = (w', buf', Err e)"
  then show "disk_view w' = disk_view w"
    by (cases rule: disk_pwrite_cases) (auto dest!: disk_next_facts(1) intro: disk_view_cong)
qed

interpretation disk_rnd: random_source disk_read disk_pending disk_view
  by unfold_locales
    (auto simp: disk_read_def length_put disk_pending_def [of "randomness_update _ _"]
      simp flip: disk_pending_def
      split: prod.splits io_ret.splits dest: disk_next_facts intro!: disk_view_cong)

section \<open>The whole buffer\<close>

text \<open>
  C21: reading with \<open>safe_fileop\<close> returns on every kernel, however often it is interrupted and
  however little every \<open>pread\<close> transfers. On success the buffer holds exactly the bytes of the
  file from the given position, zeros past its end; the file is untouched.
\<close>
theorem safe_read_exact:
  assumes "pread_op func pending view" and "len \<le> length buf"
  shows "\<exists>w' b r. safe_fileop func w (int pos) len buf = Some (w', b, r) \<and> (r = 0 \<or> r = 1) \<and>
    view w' = view w \<and> (r = 0 \<longrightarrow> b = span (view w) pos len @ drop len buf)"
proof -
  have f: "fileop func pending"
    using assms(1) by (simp add: pread_op_def)
  obtain w' b r where "safe_fileop func w (int pos) len buf = Some (w', b, r)" "r = 0 \<or> r = 1"
    using fileop.safe_total [OF f, of w "int pos" len buf] by blast
  with pread_op.safe_reads [OF assms(1) this(1) assms(2)] show ?thesis
    by blast
qed

theorem safe_read_exact_witness:
  "\<exists>w' b r. safe_fileop disk_pread \<lparr>contents = [1, 2, 3], schedule = [Short 0, Interrupt, Again], randomness = []\<rparr>
      (int 1) 4 [9, 9, 9, 9, 9] = Some (w', b, r) \<and> (r = 0 \<longrightarrow> b = [2, 3, 0, 0, 9])"
  using safe_read_exact [OF disk_rd.pread_op_axioms, of 4 "[9, 9, 9, 9, 9]"
      "\<lparr>contents = [1, 2, 3], schedule = [Short 0, Interrupt, Again], randomness = []\<rparr>" 1]
  by (fastforce simp: span_def disk_view_def upt_rec)

text \<open>
  C22: writing with \<open>safe_fileop\<close> returns on every kernel, whatever \<open>pwrite\<close> transfers, nothing included,
  as long as only finitely many interruptions come. If it reports failure the buffer is unchanged. If it
  reports success, a prefix of the data was written exactly at the position and nothing else changed;
  the prefix is all of the data unless some call transferred nothing, and then the code has wiped the rest of
  the data from the buffer and still reports success.
\<close>
theorem safe_write_exact:
  assumes "pwrite_op func pending view" and "len \<le> length buf"
  shows "\<exists>w' b r. safe_fileop func w (int pos) len buf = Some (w', b, r) \<and> (r = 0 \<or> r = 1) \<and>
    (r = 1 \<longrightarrow> b = buf) \<and>
    (r = 0 \<longrightarrow> (\<exists>m \<le> len. view w' = patch pos (take m buf) (view w) \<and>
       b = take m buf @ replicate (len - m) 0 @ drop len buf \<and>
       (m < len \<longrightarrow> (\<exists>u u' bs q. bs \<noteq> [] \<and> func u bs q = (u', bs, Done 0)))))"
proof -
  have f: "fileop func pending"
    using assms(1) by (simp add: pwrite_op_def)
  obtain w' b r where "safe_fileop func w (int pos) len buf = Some (w', b, r)" "r = 0 \<or> r = 1"
    using fileop.safe_total [OF f, of w "int pos" len buf] by blast
  with pwrite_op.safe_writes_prefix [OF assms(1) this(1) assms(2)] show ?thesis
    by (intro exI [of _ w'] exI [of _ b] exI [of _ r]) simp
qed

theorem safe_write_exact_witness:
  "\<exists>w' b r. safe_fileop disk_pwrite \<lparr>contents = [1], schedule = [Short 0, Interrupt], randomness = []\<rparr>
      (int 2) 2 [5, 6, 7] = Some (w', b, r) \<and> b = [5, 6, 7] \<and>
      (r = 0 \<longrightarrow> disk_view w' = patch 2 [5, 6] (disk_view \<lparr>contents = [1], schedule = [Short 0, Interrupt],
        randomness = []\<rparr>))"
proof -
  have "\<nexists>u u' bs q. bs \<noteq> [] \<and> disk_pwrite u bs q = (u', bs, Done 0)"
    using disk_wr.write_some by blast
  then show ?thesis
    using safe_write_exact [OF disk_wr.pwrite_op_axioms, of 2 "[5, 6, 7]"
        "\<lparr>contents = [1], schedule = [Short 0, Interrupt], randomness = []\<rparr>" 2]
    by (fastforce simp: le_less)
qed

text \<open>A call that transfers nothing: success is reported, nothing is written and the data is gone.\<close>

theorem zero_write_succeeds:
  "safe_fileop (\<lambda>w buf pos. (w, buf, Done 0)) (w :: disk) 0 3 [5, 6, 7] = Some (w, [0, 0, 0], 0)"
  by (simp add: safe_fileop_def fileop_loop.simps)

end
