(* ===== verification/Fstest.thy ===== *)
theory Fstest
  imports Xor_Hash File_Ops Decimal
begin

text \<open>
  \<open>fstest.c\<close>: the file system tester. It keeps the checksums of the file it believes to be on
  disk, rewrites random blocks while updating the checksums, and in the end takes every byte it
  reads back out of them: what is left must be zero. The kernel (\<open>pread\<close>, \<open>pwrite\<close>, \<open>read\<close> of
  the random source, \<open>fsync\<close>, \<open>fstat\<close>) is an argument over an abstract world; the locale
  \<open>fs_kernel\<close> states what is relied upon. Functions that may not return have an \<open>option\<close> result.
  Progress messages are not modelled, except for the counter that decides when to print.
\<close>

section \<open>Parameters and state\<close>

definition MAX_FSYNC_PART :: int where
  "MAX_FSYNC_PART = 1000000"

record params =
  filename :: string
  size_p :: int
  num_iterations :: int
  max_blocksize :: nat
  random_filename :: string
  max_chainlen :: int
  sync_part :: int

record 'w kernel_ops =
  k_pread :: "'w pfunc"
  k_pwrite :: "'w pfunc"
  k_read :: "'w \<Rightarrow> byte list \<Rightarrow> 'w \<times> byte list \<times> io_ret"
  k_fsync :: "'w \<Rightarrow> 'w"
  k_fsize :: "'w \<Rightarrow> int"

record 'w tester =
  world :: 'w
  hash :: chk_state
  buf1 :: "byte list"
  buf2 :: "byte list"

text \<open>How a function of the program ends: with a return value, or with a division trap.\<close>

datatype status = Ret int | Sigfpe

section \<open>Blocks\<close>

definition insert_block ::
    "'w kernel_ops \<Rightarrow> chk_state \<Rightarrow> 'w \<Rightarrow> int \<Rightarrow> nat \<Rightarrow> byte list \<Rightarrow> byte list \<Rightarrow> int
       \<Rightarrow> (chk_state \<times> 'w \<times> byte list \<times> byte list \<times> int) option" where
  "insert_block K st w pos len buf newdata mode = do {
     (w1, b, r) \<leftarrow> safe_fileop (k_pread K) w pos len buf;
     if r \<noteq> 0 then Some (st, w1, b, newdata, 1)
     else
       let st1 = update_block st b pos len in
       if mode \<noteq> 1 then do {
         (w2, nd, r2) \<leftarrow> safe_fileop (k_pwrite K) w1 pos len newdata;
         if r2 \<noteq> 0 then Some (st1, w2, b, nd, 1)
         else Some (update_block st1 nd pos len, if mode = 0 then k_fsync K w2 else w2, b, nd, 0)
       }
       else Some (st1, w1, b, newdata, 0)
   }"

text \<open>The macro \<open>RANDOMIZE\<close> on a variable of \<open>n\<close> bytes, and its value on a little endian host.\<close>

definition RANDOMIZE :: "'w kernel_ops \<Rightarrow> 'w \<Rightarrow> nat \<Rightarrow> ('w \<times> byte list \<times> int) option" where
  "RANDOMIZE K w n = safe_fileop (fake_pread (k_read K)) w 0 n (replicate n 0)"

definition le_value :: "byte list \<Rightarrow> int" where
  "le_value bs = foldr (\<lambda>b a. uint b + 256 * a) bs 0"

definition generate_block ::
    "'w kernel_ops \<Rightarrow> 'w \<Rightarrow> nat \<Rightarrow> byte list \<Rightarrow> ('w \<times> byte list \<times> int) option" where
  "generate_block K w len buf = do {
     (w1, m, r) \<leftarrow> RANDOMIZE K w 1;
     if r \<noteq> 0 then Some (w1, buf, 1)
     else
       let mode = le_value m mod 4 in
       if mode = 0 \<or> mode = 1 then do {
         (w2, b, r2) \<leftarrow> safe_fileop (fake_pread (k_read K)) w1 0 len buf;
         Some (w2, b, if r2 \<noteq> 0 then 1 else 0)
       }
       else if mode = 2 then do {
         (w2, c, r2) \<leftarrow> RANDOMIZE K w1 1;
         if r2 \<noteq> 0 then Some (w2, buf, 1) else Some (w2, put 0 (replicate len (c ! 0)) buf, 0)
       }
       else do {
         (w2, c, r2) \<leftarrow> RANDOMIZE K w1 4;
         if r2 \<noteq> 0 then Some (w2, buf, 1)
         else Some (w2, put 0 (map (\<lambda>i. c ! (i mod 4)) [0..<len]) buf, 0)
       }
   }"

section \<open>Chains of blocks\<close>

definition chain_sync :: "'w kernel_ops \<Rightarrow> params \<Rightarrow> 'w \<Rightarrow> ('w \<times> bool \<times> int) option" where
  "chain_sync K p w =
     (if sync_part p = MAX_FSYNC_PART then Some (w, True, 0)
      else if sync_part p = 0 then Some (w, False, 0)
      else do {
        (w1, v, r) \<leftarrow> RANDOMIZE K w 4;
        if r \<noteq> 0 then Some (w1, False, 1)
        else
          let syncp = push_bit 32 (word_of_int (sync_part p) :: u64) div word_of_int MAX_FSYNC_PART
          in Some (w1, word_of_int (le_value v) < syncp, 0)
      })"

fun chain_loop ::
    "'w kernel_ops \<Rightarrow> params \<Rightarrow> nat \<Rightarrow> nat \<Rightarrow> 'w tester \<Rightarrow> int \<Rightarrow> ('w tester \<times> status) option" where
  "chain_loop K p len 0 c offset = Some (c, Ret 0)"
| "chain_loop K p len (Suc k) c offset =
     (let wrap = (word_of_int (offset + int len) :: u64) > word_of_int (size_p p);
          offset1 = (if wrap then 0 else offset)
      in do {
        (w1, sync, r) \<leftarrow> chain_sync K p (world c);
        if r \<noteq> 0 then Some (c\<lparr>world := w1\<rparr>, Ret 1)
        else do {
          (st, w2, b1, b2, r2) \<leftarrow>
            insert_block K (hash c) w1 offset1 len (buf1 c) (buf2 c) (if sync then 0 else 2);
          let c1 = c\<lparr>world := w2, hash := st, buf1 := b1, buf2 := b2\<rparr>;
          if r2 \<noteq> 0 then Some (c1, Ret 1)
          else if wrap then Some (c1, Ret 0)
          else chain_loop K p len k c1 (s64 (offset1 + int len))
        }
      })"

definition insert_chain :: "'w kernel_ops \<Rightarrow> params \<Rightarrow> 'w tester \<Rightarrow> ('w tester \<times> status) option" where
  "insert_chain K p c = do {
     (w1, ob, r1) \<leftarrow> RANDOMIZE K (world c) 8;
     if r1 \<noteq> 0 then Some (c\<lparr>world := w1\<rparr>, Ret 1) else do {
     (w2, rb, r2) \<leftarrow> RANDOMIZE K w1 4;
     if r2 \<noteq> 0 then Some (c\<lparr>world := w2\<rparr>, Ret 1) else do {
     (w3, lb, r3) \<leftarrow> RANDOMIZE K w2 8;
     if r3 \<noteq> 0 then Some (c\<lparr>world := w3\<rparr>, Ret 1) else
       let offset0 = s64 (le_value ob);
           offset1 = (if offset0 < 0 then s64 (- offset0) else offset0);
           chainlen = uint (word_of_int (max_chainlen p) :: u32)
       in if size_p p = 0 \<or> (size_p p = - 1 \<and> offset1 = - (2 ^ 63)) \<or> max_blocksize p = 0 \<or> chainlen = 0
          then Some (c\<lparr>world := w3\<rparr>, Sigfpe)
          else
            let offset = offset1 smod size_p p;
                len = nat (le_value lb mod int (max_blocksize p));
                repetitions_count = nat (le_value rb mod chainlen) + 1
            in do {
              (w4, b2, r4) \<leftarrow> generate_block K w3 len (buf2 c);
              if r4 \<noteq> 0 then Some (c\<lparr>world := w4, buf2 := b2\<rparr>, Ret 1)
              else chain_loop K p len repetitions_count (c\<lparr>world := w4, buf2 := b2\<rparr>) offset
            }
     }}
   }"

section \<open>Reading the whole file\<close>

partial_function (option) cleanup_loop ::
    "'w kernel_ops \<Rightarrow> nat \<Rightarrow> int \<Rightarrow> 'w tester \<Rightarrow> int \<Rightarrow> ('w tester \<times> status) option" where
  "cleanup_loop K mb fsz c off =
     (if off \<le> fsz then do {
        (st, w1, b1, b2, r) \<leftarrow> insert_block K (hash c) (world c) off mb (buf1 c) (buf2 c) 1;
        let c1 = c\<lparr>world := w1, hash := st, buf1 := b1, buf2 := b2\<rparr>;
        if r \<noteq> 0 then Some (c1, Ret 1) else cleanup_loop K mb fsz c1 (s64 (off + int mb))
      } else Some (c, Ret 0))"

declare cleanup_loop.simps [code]

definition cleanup_size :: "'w kernel_ops \<Rightarrow> params \<Rightarrow> 'w \<Rightarrow> int \<Rightarrow> int" where
  "cleanup_size K p w mode =
     (if mode = 1 then
        (let fsz = s64 (k_fsize K w + int (max_blocksize p)) in if size_p p < fsz then size_p p else fsz)
      else size_p p)"

definition cleanup :: "'w kernel_ops \<Rightarrow> params \<Rightarrow> 'w tester \<Rightarrow> int \<Rightarrow> ('w tester \<times> status) option" where
  "cleanup K p c mode =
     (let c1 = c\<lparr>buf2 := put 0 (replicate (max_blocksize p) 0) (buf2 c)\<rparr>
      in if max_blocksize p = 0 then Some (c1, Sigfpe)
         else cleanup_loop K (max_blocksize p) (cleanup_size K p (world c) mode) c1 0)"

section \<open>The program\<close>

definition default_params :: params where
  "default_params = \<lparr>filename = ''fstest.dat'', size_p = 1024 * 1024 * 100, num_iterations = 64 * 1024,
     max_blocksize = 4096, random_filename = ''/dev/urandom'', max_chainlen = 64,
     sync_part = MAX_FSYNC_PART sdiv 100\<rparr>"

text \<open>The arguments overwrite the defaults one after the other until they run out.\<close>

definition parse_args :: "string list \<Rightarrow> params \<Rightarrow> int \<times> params" where
  "parse_args argv p =
     (if length argv < 2 then (1, p)
      else (0,
        (case drop 7 argv of [] \<Rightarrow> (\<lambda>p. p) | a # _ \<Rightarrow> (\<lambda>p. p\<lparr>sync_part := atoi a\<rparr>))
        ((case drop 6 argv of [] \<Rightarrow> (\<lambda>p. p) | a # _ \<Rightarrow> (\<lambda>p. p\<lparr>random_filename := a\<rparr>))
        ((case drop 5 argv of [] \<Rightarrow> (\<lambda>p. p) | a # _ \<Rightarrow> (\<lambda>p. p\<lparr>max_chainlen := atoi a\<rparr>))
        ((case drop 4 argv of [] \<Rightarrow> (\<lambda>p. p) | a # _ \<Rightarrow> (\<lambda>p. p\<lparr>max_blocksize := nat (atoi a mod 2 ^ 64)\<rparr>))
        ((case drop 3 argv of [] \<Rightarrow> (\<lambda>p. p) | a # _ \<Rightarrow> (\<lambda>p. p\<lparr>num_iterations := atoi a\<rparr>))
        ((case drop 2 argv of [] \<Rightarrow> (\<lambda>p. p) | a # _ \<Rightarrow> (\<lambda>p. p\<lparr>size_p := atoll a\<rparr>))
        ((case drop 1 argv of [] \<Rightarrow> (\<lambda>p. p) | a # _ \<Rightarrow> (\<lambda>p. p\<lparr>filename := a\<rparr>)) p))))))))"

text \<open>The two results of \<open>open\<close>.\<close>

definition prepare :: "int \<Rightarrow> int \<Rightarrow> int" where
  "prepare file random = (if file = - 1 then 1 else if random = - 1 then 1 else 0)"

text \<open>The handler counts interrupts; the second one exits with status 2.\<close>

definition int_handler :: "int \<Rightarrow> int \<times> int option" where
  "int_handler interrupted =
     (let i = s32 (interrupted + 1) in (i, if i > 1 then Some 2 else None))"

text \<open>\<open>sig i\<close>: an interrupt has arrived before iteration \<open>i\<close>.\<close>

fun iterations ::
    "'w kernel_ops \<Rightarrow> params \<Rightarrow> (nat \<Rightarrow> bool) \<Rightarrow> nat \<Rightarrow> nat \<Rightarrow> 'w tester \<Rightarrow> ('w tester \<times> status) option" where
  "iterations K p sig 0 i c = Some (c, Ret 0)"
| "iterations K p sig (Suc n) i c =
     (if sig i then Some (c, Ret 0)
      else do {
        (c1, s) \<leftarrow> insert_chain K p c;
        if s \<noteq> Ret 0 then Some (c1, s) else iterations K p sig n (Suc i) c1
      })"

text \<open>The last pass reads everything; the program then looks for a checksum that is not zero.\<close>

definition verdict :: "chk_state \<Rightarrow> status" where
  "verdict st = (if list_ex (\<lambda>x. x \<noteq> 0) (xors st) then Ret 2 else Ret 0)"

definition last_pass :: "'w kernel_ops \<Rightarrow> params \<Rightarrow> 'w tester \<Rightarrow> ('w tester \<times> status) option" where
  "last_pass K p c = do {
     (c1, s) \<leftarrow> cleanup K p c 0;
     if s \<noteq> Ret 0 then Some (c1, s) else Some (c1, verdict (hash c1))
   }"

text \<open>The status of the first \<open>cleanup\<close> is ignored, as the code ignores its return value.\<close>

definition fstest_run ::
    "'w kernel_ops \<Rightarrow> params \<Rightarrow> (nat \<Rightarrow> bool) \<Rightarrow> 'w tester \<Rightarrow> ('w tester \<times> status) option" where
  "fstest_run K p sig c = do {
     (c1, s1) \<leftarrow> cleanup K p c 1;
     if s1 = Sigfpe then Some (c1, Sigfpe) else do {
     (c2, s2) \<leftarrow> iterations K p sig (nat (num_iterations p)) 0 c1;
     if s2 \<noteq> Ret 0 then Some (c2, s2) else last_pass K p c2
     }
   }"

text \<open>\<open>junk1\<close> and \<open>junk2\<close> are the fresh buffers of \<open>malloc\<close>, which is assumed to succeed.\<close>

definition fstest_main ::
    "'w kernel_ops \<Rightarrow> string list \<Rightarrow> int \<Rightarrow> int \<Rightarrow> (nat \<Rightarrow> bool) \<Rightarrow> 'w
       \<Rightarrow> (nat \<Rightarrow> byte list) \<Rightarrow> (nat \<Rightarrow> byte list) \<Rightarrow> status option" where
  "fstest_main K argv file random sig w junk1 junk2 =
     (case parse_args argv default_params of (r, p) \<Rightarrow>
        if r \<noteq> 0 then Some (Ret 1)
        else if prepare file random \<noteq> 0 then Some (Ret 1)
        else map_option snd (fstest_run K p sig
          \<lparr>world = w, hash = chk_zero, buf1 = junk1 (max_blocksize p), buf2 = junk2 (max_blocksize p)\<rparr>))"

end
