(* ===== verification/Fstest_Correct.thy ===== *)
theory Fstest_Correct
  imports Fstest
begin

text \<open>
  Correctness of \<open>fstest.c\<close>. Everything is proved once for any kernel that honours the documented
  behaviour of its calls (locale \<open>fs_kernel\<close>), which the world with fault schedules does: the program
  always returns, it reports a failure of a file system that returns what was written only when its
  first pass was cut off by an error, and
  what it reports after a corruption is the exclusive or of old and new contents.
\<close>

section \<open>How the program starts\<close>

text \<open>
  Arguments that do not overflow a position: the size below \<open>2^62\<close>, the block size an \<open>int\<close>. The
  buffers hold a block of any size the program uses. The whole file is read in blocks, up to
  \<open>blocks_end\<close>.
\<close>

definition params_ok :: "params \<Rightarrow> bool" where
  "params_ok p \<longleftrightarrow> 0 < size_p p \<and> size_p p < 2 ^ 62 \<and> 0 < max_blocksize p \<and> max_blocksize p < 2 ^ 31"

definition buffers_ok :: "nat \<Rightarrow> 'w tester \<Rightarrow> bool" where
  "buffers_ok mb c \<longleftrightarrow> chk_ok (hash c) \<and> length (buf1 c) = mb \<and> length (buf2 c) = mb"

definition blocks_end :: "nat \<Rightarrow> int \<Rightarrow> nat" where
  "blocks_end mb sz = mb * (nat sz div mb + 1)"

definition startable :: "'w kernel_ops \<Rightarrow> params \<Rightarrow> 'w tester \<Rightarrow> bool" where
  "startable K p c \<longleftrightarrow> params_ok p \<and> (word_of_int (max_chainlen p) :: u32) \<noteq> 0 \<and>
     buffers_ok (max_blocksize p) c \<and> hash c = chk_zero \<and> k_fsize K (world c) < 2 ^ 62"

section \<open>The kernel's side\<close>

locale fs_kernel =
  rd: pread_op "k_pread K" pending view + wr: pwrite_full "k_pwrite K" pending view +
  rnd: random_source "k_read K" pending view
  for K :: "'w kernel_ops" and pending :: "'w \<Rightarrow> nat" and view :: "'w \<Rightarrow> nat \<Rightarrow> byte" +
  assumes negative_offset: "k_pread K w buf q = (w', buf', r) \<Longrightarrow> q < 0 \<Longrightarrow> \<exists>e. r = Err (EOTHER e)"
    and fsync_view: "view (k_fsync K w) = view w"
    and fsize_nonneg: "0 \<le> k_fsize K w"
    and fsize_end: "k_fsize K w \<le> int at \<Longrightarrow> view w at = 0"
begin

lemma loop_negative:
  assumes "q < 0" "rest \<noteq> []" "fileop_loop (k_pread K) w q front rest = Some (w', b, r)"
  shows "r = 1"
proof -
  obtain w1 rest1 ret where f: "k_pread K w rest q = (w1, rest1, ret)"
    by (metis prod_cases3)
  then obtain e where "ret = Err (EOTHER e)"
    using negative_offset assms(1) by blast
  then show ?thesis
    using assms(2,3) f by (subst (asm) fileop_loop.simps) simp
qed

lemma randomize_total: "\<exists>w' b r. RANDOMIZE K w n = Some (w', b, r)"
  using rnd.safe_total unfolding RANDOMIZE_def by blast

lemma randomize_view: "RANDOMIZE K w n = Some (w', b, r) \<Longrightarrow> view w' = view w"
  unfolding RANDOMIZE_def by (rule rnd.random_safe_view)

lemma safe_len:
  assumes "safe_fileop func w q len buf = Some (w', b, r)" "fileop func pending"
  shows "length b = length buf"
  using fileop.safe_total [OF assms(2), of w q len buf] assms(1) by auto

section \<open>Inserting a block\<close>

lemma insert_block_total: "\<exists>x. insert_block K st w q len buf nd mode = Some x"
proof -
  obtain w1 b r where 1: "safe_fileop (k_pread K) w q len buf = Some (w1, b, r)"
    using rd.safe_total by blast
  obtain w2 b2 r2 where 2: "safe_fileop (k_pwrite K) w1 q len nd = Some (w2, b2, r2)"
    using wr.safe_total by blast
  show ?thesis
    by (simp add: insert_block_def 1 2 Let_def)
qed

lemma insert_block_lengths:
  assumes "insert_block K st w q len buf nd mode = Some (st', w', b, nd', r)"
  shows "length b = length buf" "length nd' = length nd"
  using assms safe_len [OF _ rd.fileop_axioms] safe_len [OF _ wr.fileop_axioms]
  by (auto simp: insert_block_def Let_def split: Option.bind_splits if_splits prod.splits)

lemma insert_block_ok:
  "chk_ok st \<Longrightarrow> insert_block K st w q len buf nd mode = Some (st', w', b, nd', r) \<Longrightarrow> chk_ok st'"
  by (auto simp: insert_block_def Let_def split: Option.bind_splits if_splits prod.splits)

lemma insert_block_negative:
  assumes "insert_block K st w q len buf nd mode = Some (st', w', b, nd', r)" "q < 0"
    "0 < len" "len \<le> length buf"
  shows "r = 1"
proof -
  obtain w1 b1 r1 where 1: "safe_fileop (k_pread K) w q len buf = Some (w1, b1, r1)"
    using rd.safe_total by blast
  then obtain b2 where "fileop_loop (k_pread K) w q [] (take len buf) = Some (w1, b2, r1)"
    by (auto simp: safe_fileop_def split: Option.bind_splits)
  then have "r1 = 1"
    using assms(2-) by (intro loop_negative) auto
  with 1 assms(1) show ?thesis
    by (simp add: insert_block_def)
qed

text \<open>The block that was read leaves the checksums, the block that was written enters them.\<close>

lemma insert_block_hash:
  assumes "insert_block K st w (int pos) len buf nd mode = Some (st', w', b, nd', 0)"
    and "chk_ok st" "len \<le> length buf" "len \<le> length nd" "k < 9"
  shows "view w' = (if mode = 1 then view w else patch pos (take len nd) (view w))"
    and "xors st' ! k = xors st ! k XOR checksum (view w) {pos..<pos + len} k XOR
      (if mode = 1 then 0 else checksum (view w') {pos..<pos + len} k)"
proof -
  obtain w1 b1 r1 where 1: "safe_fileop (k_pread K) w (int pos) len buf = Some (w1, b1, r1)"
    using rd.safe_total by blast
  obtain w2 b2 r2 where 2: "safe_fileop (k_pwrite K) w1 (int pos) len nd = Some (w2, b2, r2)"
    using wr.safe_total by blast
  have r1: "r1 = 0" and r2: "mode \<noteq> 1 \<Longrightarrow> r2 = 0"
    using assms(1) 1 2 by (auto simp: insert_block_def Let_def split: if_splits)
  note read = rd.safe_reads [OF 1 assms(3)]
  note written = wr.safe_writes [OF 2 assms(4)]
  have v: "mode \<noteq> 1 \<Longrightarrow> view w' = view w2" "mode = 1 \<Longrightarrow> w' = w1"
    using assms(1) 1 2 r1 by (auto simp: insert_block_def Let_def fsync_view split: if_splits)
  then show view: "view w' = (if mode = 1 then view w else patch pos (take len nd) (view w))"
    using read(1) written(2) r2 by auto
  have "checksum (\<lambda>p. b1 ! (p - pos)) {pos..<pos + len} k = checksum (view w) {pos..<pos + len} k"
    using read(2) r1 by (intro checksum_cong) (simp add: nth_append less_diff_conv2 add.commute)
  moreover have "checksum (\<lambda>p. nd ! (p - pos)) {pos..<pos + len} k
      = checksum (view w') {pos..<pos + len} k" if "mode \<noteq> 1"
    using that view assms(4) by (intro checksum_cong) (auto simp: patch_def)
  ultimately show "xors st' ! k = xors st ! k XOR checksum (view w) {pos..<pos + len} k XOR
      (if mode = 1 then 0 else checksum (view w') {pos..<pos + len} k)"
    using assms(1,2,5) 1 2 r1 r2 written(1)
    by (auto simp: insert_block_def Let_def update_block_nth xor.assoc split: if_splits)
qed

section \<open>The invariant\<close>

text \<open>
  The checksums are those of the first \<open>n\<close> bytes of the file.
\<close>

definition consistent :: "nat \<Rightarrow> 'w tester \<Rightarrow> bool" where
  "consistent n c \<longleftrightarrow> (\<forall>k < 9. xors (hash c) ! k = checksum (view (world c)) {..<n} k)"

lemma block_keeps:
  assumes "insert_block K (hash c) w q len (buf1 c) (buf2 c) mode = Some (st, w', b1, b2, 0)"
    and "view w = view (world c)" "mode \<noteq> 1" "buffers_ok mb c" "len \<le> mb"
    and "consistent n c" "q + int len \<le> int n"
  shows "consistent n (c\<lparr>world := w', hash := st, buf1 := b1, buf2 := b2\<rparr>)"
proof (cases "len = 0")
  case True
  have b0: "safe_fileop func u q 0 buf = Some (u, buf, 0)" for func u buf
    by (simp add: safe_fileop_def fileop_loop.simps)
  show ?thesis
    using assms True by (auto simp: consistent_def insert_block_def b0 update_block_def fsync_view
        Let_def split: if_splits)
next
  case False
  have "0 \<le> q"
    using insert_block_negative [OF assms(1)] assms(4,5) False by (force simp: buffers_ok_def)
  define pos where "pos = nat q"
  then have q: "q = int pos"
    using \<open>0 \<le> q\<close> by simp
  have b: "chk_ok (hash c)" "len \<le> length (buf1 c)" "len \<le> length (buf2 c)"
    using assms(4,5) by (simp_all add: buffers_ok_def)
  have sub: "{pos..<pos + len} \<subseteq> {..<n}"
    using assms(7) q by auto
  have "xors st ! k = checksum (view w') {..<n} k" if "k < 9" for k
  proof -
    note h = insert_block_hash [OF assms(1) [unfolded q] b that]
    have "checksum (view w) {..<n} k XOR checksum (view w) {pos..<pos + len} k XOR
        checksum (view w') {pos..<pos + len} k = checksum (view w') {..<n} k"
      using h(1) assms(3) b sub by (intro checksum_replace) (auto simp: patch_def)
    then show ?thesis
      using h(2) assms(2,3,6) that by (simp add: consistent_def)
  qed
  then show ?thesis
    by (simp add: consistent_def)
qed


section \<open>Chains\<close>

lemma generate_block_total:
  "\<exists>w' b r. generate_block K w len buf = Some (w', b, r)"
proof -
  obtain w1 m r1 where 1: "RANDOMIZE K w 1 = Some (w1, m, r1)"
    using randomize_total by blast
  obtain w2 b r2 where 2: "safe_fileop (fake_pread (k_read K)) w1 0 len buf = Some (w2, b, r2)"
    using rnd.safe_total by blast
  obtain w3 c r3 where 3: "RANDOMIZE K w1 1 = Some (w3, c, r3)"
    using randomize_total by blast
  obtain w4 d r4 where 4: "RANDOMIZE K w1 4 = Some (w4, d, r4)"
    using randomize_total by blast
  show ?thesis
    using 1 by (cases "r1 = 0") (auto simp: generate_block_def 2 3 4 Let_def simp del: One_nat_def)
qed

lemma generate_block_keeps:
  assumes "generate_block K w len buf = Some (w', b, r)" "len \<le> length buf"
  shows "view w' = view w \<and> length b = length buf"
proof -
  obtain w1 m r1 where 1: "RANDOMIZE K w 1 = Some (w1, m, r1)"
    using randomize_total by blast
  obtain w2 b2 r2 where 2: "safe_fileop (fake_pread (k_read K)) w1 0 len buf = Some (w2, b2, r2)"
    using rnd.safe_total by blast
  obtain w3 c3 r3 where 3: "RANDOMIZE K w1 1 = Some (w3, c3, r3)"
    using randomize_total by blast
  obtain w4 c4 r4 where 4: "RANDOMIZE K w1 4 = Some (w4, c4, r4)"
    using randomize_total by blast
  note v = randomize_view [OF 1] rnd.random_safe_view [OF 2] randomize_view [OF 3] randomize_view [OF 4]
    safe_len [OF 2 rnd.fileop_axioms]
  show ?thesis
    using assms 1 v
    by (auto simp: generate_block_def Let_def 2 3 4 length_put simp del: One_nat_def split: if_splits)
qed

lemma chain_sync_total: "\<exists>w' b r. chain_sync K p w = Some (w', b, r)"
proof -
  obtain w1 m r1 where "RANDOMIZE K w 4 = Some (w1, m, r1)"
    using randomize_total by blast
  then show ?thesis
    by (cases "r1 = 0") (auto simp: chain_sync_def Let_def)
qed

lemma chain_sync_view: "chain_sync K p w = Some (w', b, r) \<Longrightarrow> view w' = view w"
  by (auto simp: chain_sync_def Let_def randomize_view split: Option.bind_splits if_splits)

text \<open>An offset at which the code does not wrap around leaves room for the block.\<close>

lemma no_wrap_fits:
  assumes "\<not> (word_of_int x :: u64) > word_of_int sz" "0 < sz" "sz < 2 ^ 62" "- (2 ^ 63) \<le> x" "x < 2 ^ 63"
  shows "x \<le> sz"
proof (rule ccontr)
  assume "\<not> x \<le> sz"
  then have "x mod 2 ^ 64 = x" "sz mod 2 ^ 64 = sz"
    using assms by simp_all
  then show False
    using assms(1) \<open>\<not> x \<le> sz\<close> by (simp add: word_less_def uint_word_of_int)
qed

text \<open>One round of the loop, with the calls it makes.\<close>

definition wraps :: "params \<Rightarrow> nat \<Rightarrow> int \<Rightarrow> bool" where
  "wraps p len off \<longleftrightarrow> (word_of_int (off + int len) :: u64) > word_of_int (size_p p)"

lemma chain_loop_step:
  assumes "chain_sync K p (world c) = Some (w1, b, r)"
    and "insert_block K (hash c) w1 (if wraps p len off then 0 else off) len (buf1 c) (buf2 c)
      (if b then 0 else 2) = Some (st, w2, b1, b2, r2)"
  shows "chain_loop K p len (Suc k) c off =
    (if r \<noteq> 0 then Some (c\<lparr>world := w1\<rparr>, Ret 1)
     else let c1 = c\<lparr>world := w2, hash := st, buf1 := b1, buf2 := b2\<rparr> in
       if r2 \<noteq> 0 then Some (c1, Ret 1) else if wraps p len off then Some (c1, Ret 0)
       else chain_loop K p len k c1 (s64 (off + int len)))"
  using assms unfolding wraps_def by (cases "r = 0") (simp_all add: Let_def del: of_int_add)

lemma chain_calls:
  obtains w1 b r st w2 b1 b2 r2 where
    "chain_sync K p (world c) = Some (w1, b, r)"
    "insert_block K (hash c) w1 (if wraps p len off then 0 else off) len (buf1 c) (buf2 c)
      (if b then 0 else 2) = Some (st, w2, b1, b2, r2)"
proof -
  obtain w1 b r where 1: "chain_sync K p (world c) = Some (w1, b, r)"
    using chain_sync_total by blast
  obtain x where 2: "insert_block K (hash c) w1 (if wraps p len off then 0 else off) len (buf1 c) (buf2 c)
      (if b then 0 else 2) = Some x"
    using insert_block_total by blast
  show thesis
    by (cases x) (use that [OF 1] 2 in simp)
qed

lemma chain_loop_total: "\<exists>c' s. chain_loop K p len k c off = Some (c', s) \<and> (s = Ret 0 \<or> s = Ret 1)"
proof (induction k arbitrary: c off)
  case 0
  then show ?case by simp
next
  case (Suc k)
  obtain w1 b r st w2 b1 b2 r2 where calls:
    "chain_sync K p (world c) = Some (w1, b, r)"
    "insert_block K (hash c) w1 (if wraps p len off then 0 else off) len (buf1 c) (buf2 c)
      (if b then 0 else 2) = Some (st, w2, b1, b2, r2)"
    by (rule chain_calls)
  show ?case
    using Suc.IH [of "c\<lparr>world := w2, hash := st, buf1 := b1, buf2 := b2\<rparr>" "s64 (off + int len)"]
    unfolding chain_loop_step [OF calls] Let_def by auto
qed

lemma chain_loop_keeps:
  assumes "chain_loop K p len k c off = Some (c', s)" "params_ok p" "len \<le> max_blocksize p"
    and "buffers_ok (max_blocksize p) c" "- (2 ^ 63) \<le> off" "off \<le> size_p p"
    and "size_p p \<le> int n" "max_blocksize p \<le> n"
  shows "buffers_ok (max_blocksize p) c' \<and> (s = Ret 0 \<and> consistent n c \<longrightarrow> consistent n c')"
  using assms
proof (induction k arbitrary: c off)
  case 0
  then show ?case by simp
next
  case (Suc k)
  let ?off = "if wraps p len off then 0 else off"
  obtain w1 b r st w2 b1 b2 r2 where calls:
    "chain_sync K p (world c) = Some (w1, b, r)"
    "insert_block K (hash c) w1 ?off len (buf1 c) (buf2 c) (if b then 0 else 2) = Some (st, w2, b1, b2, r2)"
    by (rule chain_calls)
  define c1 where "c1 = c\<lparr>world := w2, hash := st, buf1 := b1, buf2 := b2\<rparr>"
  note step = Suc.prems(1) [unfolded chain_loop_step [OF calls], unfolded Let_def, folded c1_def]
  have bufs: "buffers_ok (max_blocksize p) c1"
    using insert_block_lengths [OF calls(2)] insert_block_ok [OF _ calls(2)] Suc.prems(4)
    by (simp add: buffers_ok_def c1_def)
  have fits: "\<not> wraps p len off \<Longrightarrow> off + int len \<le> size_p p"
    unfolding wraps_def using Suc.prems(2,3,5,6) by (elim no_wrap_fits) (auto simp: params_ok_def)
  then have "?off + int len \<le> int n"
    using Suc.prems(3,7,8) by auto
  then have keeps: "consistent n c1" if "r2 = 0" "consistent n c"
    unfolding c1_def
    using block_keeps [OF calls(2) [unfolded that(1)] chain_sync_view [OF calls(1)] _ Suc.prems(4,3) that(2)]
    by simp
  show ?case
  proof (cases "r = 0 \<and> r2 = 0 \<and> \<not> wraps p len off")
    case True
    then have "in_s64 (off + int len)"
      using fits Suc.prems(2,5) by (auto simp: in_s64_def params_ok_def)
    with True have "chain_loop K p len k c1 (off + int len) = Some (c', s)"
      using step by (simp add: s64_id)
    moreover have "- (2 ^ 63) \<le> off + int len" "off + int len \<le> size_p p" "consistent n c \<Longrightarrow> consistent n c1"
      using True fits keeps Suc.prems(5) by auto
    ultimately show ?thesis
      using Suc.IH bufs Suc.prems(2,3,7,8) by blast
  next
    case False
    then have "c' = c\<lparr>world := w1\<rparr> \<and> s = Ret 1 \<or> c' = c1 \<and> (s = Ret 1 \<or> s = Ret 0 \<and> r2 = 0)"
      using step by (auto split: if_splits)
    then show ?thesis
      using bufs keeps Suc.prems(4) by (auto simp: buffers_ok_def)
  qed
qed

text \<open>The three random numbers, and what the rest of \<open>insert_chain\<close> does with them.\<close>

lemma insert_chain_cases:
  assumes "params_ok p" "(word_of_int (max_chainlen p) :: u32) \<noteq> 0" "max_blocksize p \<le> length (buf2 c)"
  obtains w where "insert_chain K p c = Some (c\<lparr>world := w\<rparr>, Ret 1)"
  | w b where "insert_chain K p c = Some (c\<lparr>world := w, buf2 := b\<rparr>, Ret 1)" "length b = length (buf2 c)"
  | w b n k off where "insert_chain K p c = chain_loop K p n k (c\<lparr>world := w, buf2 := b\<rparr>) off"
      "n \<le> max_blocksize p" "- (2 ^ 63) \<le> off" "off \<le> size_p p" "view w = view (world c)"
      "length b = length (buf2 c)"
proof -
  obtain w1 ob r1 where 1: "RANDOMIZE K (world c) 8 = Some (w1, ob, r1)"
    using randomize_total by blast
  obtain w2 rb r2 where 2: "RANDOMIZE K w1 4 = Some (w2, rb, r2)"
    using randomize_total by blast
  obtain w3 lb r3 where 3: "RANDOMIZE K w2 8 = Some (w3, lb, r3)"
    using randomize_total by blast
  note v = randomize_view [OF 1] randomize_view [OF 2] randomize_view [OF 3]
  define off where "off = (let o0 = s64 (le_value ob) in if o0 < 0 then s64 (- o0) else o0) smod size_p p"
  define n where "n = nat (le_value lb mod int (max_blocksize p))"
  obtain w4 b r4 where 4: "generate_block K w3 n (buf2 c) = Some (w4, b, r4)"
    using generate_block_total by blast
  have nz: "uint (word_of_int (max_chainlen p) :: u32) \<noteq> 0"
    using assms(2) by (simp add: uint_0_iff)
  have n: "n < max_blocksize p"
    using assms(1) by (simp add: n_def params_ok_def nat_less_iff)
  have off: "- (2 ^ 63) \<le> off" "off \<le> size_p p"
    using assms(1) smod_int_range [of "size_p p" "let o0 = s64 (le_value ob) in if o0 < 0 then s64 (- o0) else o0"]
    by (simp_all add: off_def params_ok_def)
  have keeps: "view w4 = view (world c)" "length b = length (buf2 c)"
    using generate_block_keeps [OF 4] v n assms(3) by simp_all
  show thesis
  proof (cases "r1 = 0 \<and> r2 = 0 \<and> r3 = 0")
    case False
    then show thesis
      using that(1) 1 2 3 v by (fastforce simp: insert_chain_def split: if_splits)
  next
    case True
    then have "insert_chain K p c = (if r4 \<noteq> 0 then Some (c\<lparr>world := w4, buf2 := b\<rparr>, Ret 1) else
        chain_loop K p n (nat (le_value rb mod uint (word_of_int (max_chainlen p) :: u32)) + 1)
          (c\<lparr>world := w4, buf2 := b\<rparr>) off)"
      using assms(1) nz 4 unfolding insert_chain_def
      by (simp add: 1 2 3 Let_def off_def n_def params_ok_def del: chain_loop.simps)
    then show thesis
      using that(2) [of b w4] that(3) n off keeps
      by (cases "r4 = 0") (auto simp del: chain_loop.simps)
  qed
qed

lemma insert_chain_keeps:
  assumes "params_ok p" "(word_of_int (max_chainlen p) :: u32) \<noteq> 0"
    and "buffers_ok (max_blocksize p) c" "size_p p \<le> int n" "max_blocksize p \<le> n"
  obtains c' s where "insert_chain K p c = Some (c', s)" "buffers_ok (max_blocksize p) c'"
    "s = Ret 0 \<and> (consistent n c \<longrightarrow> consistent n c') \<or> s = Ret 1"
proof -
  have "max_blocksize p \<le> length (buf2 c)"
    using assms(3) by (simp add: buffers_ok_def)
  from assms(1,2) this show thesis
  proof (cases rule: insert_chain_cases)
    case (1 w)
    with that assms(3) show thesis
      by (simp add: buffers_ok_def)
  next
    case (2 w b)
    with that assms(3) show thesis
      by (simp add: buffers_ok_def)
  next
    case (3 w b m k off)
    let ?c = "c\<lparr>world := w, buf2 := b\<rparr>"
    obtain c' s where run: "chain_loop K p m k ?c off = Some (c', s)" and s: "s = Ret 0 \<or> s = Ret 1"
      using chain_loop_total by blast
    have "buffers_ok (max_blocksize p) ?c" "consistent n ?c \<longleftrightarrow> consistent n c"
      using 3 assms(3) by (simp_all add: buffers_ok_def consistent_def)
    with run 3 assms show thesis
      using chain_loop_keeps [OF run] that s by (metis (full_types))
  qed
qed

lemma iterations_keep:
  assumes "params_ok p" "(word_of_int (max_chainlen p) :: u32) \<noteq> 0"
    and "size_p p \<le> int n" "max_blocksize p \<le> n"
    and "buffers_ok (max_blocksize p) c"
  shows "\<exists>c' s. iterations K p sig m i c = Some (c', s) \<and> buffers_ok (max_blocksize p) c' \<and>
    (s = Ret 0 \<and> (consistent n c \<longrightarrow> consistent n c') \<or> s = Ret 1)"
  using assms(5)
proof (induction m arbitrary: i c)
  case 0
  then show ?case by simp
next
  case (Suc m)
  obtain c1 s where "insert_chain K p c = Some (c1, s)" "buffers_ok (max_blocksize p) c1"
    "s = Ret 0 \<and> (consistent n c \<longrightarrow> consistent n c1) \<or> s = Ret 1"
    using insert_chain_keeps [OF assms(1,2) Suc.prems assms(3,4)] by blast
  with Suc.IH [of c1 "Suc i"] Suc.prems show ?case
    by (cases "sig i"; cases "s = Ret 0") auto
qed

section \<open>Reading everything\<close>

lemma blocks_end_gt:
  assumes "0 < mb"
  shows "sz < int (blocks_end mb sz)"
proof -
  have "nat sz < blocks_end mb sz"
    using dividend_less_times_div [of mb "nat sz"] assms by (simp add: blocks_end_def)
  then show ?thesis by linarith
qed

lemma blocks_end_mono: "sz \<le> sz' \<Longrightarrow> blocks_end mb sz \<le> blocks_end mb sz'"
  by (simp add: blocks_end_def div_le_mono nat_mono)

lemma cleanup_loop_reads:
  assumes "0 < mb" "mb < 2 ^ 31" "0 \<le> sz" "sz < 2 ^ 62" "buffers_ok mb c" "mb * j \<le> blocks_end mb sz"
  shows "\<exists>c' s. cleanup_loop K mb sz c (int (mb * j)) = Some (c', s) \<and> buffers_ok mb c' \<and>
    (s = Ret 0 \<or> s = Ret 1) \<and> (s = Ret 0 \<longrightarrow> view (world c') = view (world c) \<and>
      (\<forall>k < 9. xors (hash c') ! k
        = xors (hash c) ! k XOR checksum (view (world c)) {mb * j..<blocks_end mb sz} k))"
  using assms(5,6)
proof (induction "nat sz div mb + 1 - j" arbitrary: c j)
  case 0
  then have "mb * (nat sz div mb + 1) \<le> mb * j"
    by (intro mult_le_mono2) simp
  then have "blocks_end mb sz = mb * j"
    using 0 by (simp add: blocks_end_def)
  moreover from this have "sz < int (mb * j)"
    using blocks_end_gt [OF assms(1), of sz] by simp
  ultimately show ?case
    using 0 by (simp add: cleanup_loop.simps checksum_def)
next
  case (Suc d)
  let ?pos = "mb * j"
  have "j \<le> nat sz div mb"
    using Suc.hyps(2) by simp
  then have le: "mb * j \<le> nat sz" "mb * (j + 1) \<le> blocks_end mb sz"
    by (auto simp: blocks_end_def less_eq_div_iff_mult_less_eq assms(1) mult.commute)
  obtain x where "insert_block K (hash c) (world c) (int ?pos) mb (buf1 c) (buf2 c) 1 = Some x"
    using insert_block_total by blast
  then obtain st w b1 b2 r where
    ins: "insert_block K (hash c) (world c) (int ?pos) mb (buf1 c) (buf2 c) 1 = Some (st, w, b1, b2, r)"
    by (cases x) auto
  define c1 where "c1 = c\<lparr>world := w, hash := st, buf1 := b1, buf2 := b2\<rparr>"
  have bufs: "buffers_ok mb c1"
    using insert_block_lengths [OF ins] insert_block_ok [OF _ ins] Suc.prems
    by (simp add: buffers_ok_def c1_def)
  have pos: "int ?pos \<le> sz"
    using le(1) le_nat_iff [OF assms(3)] by blast
  then have "in_s64 (int ?pos + int mb)"
    using assms(2,4) by (simp add: in_s64_def del: of_nat_mult)
  moreover have "int ?pos + int mb = int (mb * (j + 1))"
    by simp
  ultimately have next_pos: "s64 (int ?pos + int mb) = int (mb * (j + 1))"
    using s64_id by metis
  then have step: "cleanup_loop K mb sz c (int ?pos)
      = (if r \<noteq> 0 then Some (c1, Ret 1) else cleanup_loop K mb sz c1 (int (mb * (j + 1))))"
    using pos next_pos ins by (subst cleanup_loop.simps) (simp add: c1_def del: of_nat_mult)
  show ?case
  proof (cases "r = 0")
    case False
    with step bufs show ?thesis by simp
  next
    case True
    have h: "view (world c1) = view (world c)"
      "k < 9 \<Longrightarrow> xors (hash c1) ! k = xors (hash c) ! k XOR checksum (view (world c)) {?pos..<?pos + mb} k" for k
      using insert_block_hash(1) [OF ins [unfolded True], of 0] insert_block_hash(2) [OF ins [unfolded True]]
        Suc.prems by (simp_all add: buffers_ok_def c1_def)
    have "{?pos..<blocks_end mb sz} = {?pos..<?pos + mb} \<union> {mb * (j + 1)..<blocks_end mb sz}"
      using le by auto
    then have u: "checksum f {?pos..<blocks_end mb sz} k
        = checksum f {?pos..<?pos + mb} k XOR checksum f {mb * (j + 1)..<blocks_end mb sz} k" for f k
      by (simp add: checksum_union)
    have "d = nat sz div mb + 1 - (j + 1)"
      using Suc.hyps(2) by simp
    from Suc.hyps(1) [OF this bufs le(2)] step True show ?thesis
      by (auto simp: h u xor.assoc)
  qed
qed

text \<open>
  The two uses of \<open>cleanup\<close>: the first collects the checksums of what is in the file, the last one
  takes out what is read.
\<close>

definition hash_is :: "nat \<Rightarrow> (nat \<Rightarrow> byte) \<Rightarrow> 'w tester \<Rightarrow> bool" where
  "hash_is n f c \<longleftrightarrow> (\<forall>k < 9. xors (hash c) ! k = checksum f {..<n} k)"

lemma consistent_hash_is: "consistent n c \<longleftrightarrow> hash_is n (view (world c)) c"
  by (simp add: consistent_def hash_is_def)

lemma cleanup_reads:
  assumes "params_ok p" "buffers_ok (max_blocksize p) c" "0 \<le> cleanup_size K p (world c) mode"
    and "cleanup_size K p (world c) mode < 2 ^ 62"
  obtains c' s where "cleanup K p c mode = Some (c', s)" "buffers_ok (max_blocksize p) c'"
    "s = Ret 0 \<or> s = Ret 1" "s = Ret 0 \<Longrightarrow> view (world c') = view (world c)"
    "\<And>k. s = Ret 0 \<Longrightarrow> k < 9 \<Longrightarrow> xors (hash c') ! k = xors (hash c) ! k XOR
      checksum (view (world c)) {..<blocks_end (max_blocksize p) (cleanup_size K p (world c) mode)} k"
proof -
  let ?c = "c\<lparr>buf2 := put 0 (replicate (max_blocksize p) 0) (buf2 c)\<rparr>"
  have b: "buffers_ok (max_blocksize p) ?c"
    using assms(2) by (simp add: buffers_ok_def length_put)
  have r: "0 < max_blocksize p" "max_blocksize p < 2 ^ 31"
    using assms(1) by (simp_all add: params_ok_def)
  then have "cleanup K p c mode = cleanup_loop K (max_blocksize p) (cleanup_size K p (world c) mode) ?c 0"
    by (simp add: cleanup_def)
  then show thesis
    using cleanup_loop_reads [OF r assms(3,4) b, of 0] that by (auto simp: atLeast0LessThan)
qed

lemma first_size:
  assumes "params_ok p" "k_fsize K w < 2 ^ 62"
  shows "cleanup_size K p w 1 = min (size_p p) (k_fsize K w + int (max_blocksize p))"
    and "0 \<le> cleanup_size K p w 1" "cleanup_size K p w 1 < 2 ^ 62"
proof -
  have "in_s64 (k_fsize K w + int (max_blocksize p))"
    using assms fsize_nonneg [of w] by (simp add: params_ok_def in_s64_def)
  then show "cleanup_size K p w 1 = min (size_p p) (k_fsize K w + int (max_blocksize p))"
    by (simp add: cleanup_size_def s64_id Let_def min_def)
  then show "0 \<le> cleanup_size K p w 1" "cleanup_size K p w 1 < 2 ^ 62"
    using assms fsize_nonneg [of w] by (auto simp: params_ok_def)
qed

text \<open>Past the part that was preread there are only zeros.\<close>

lemma preread_covers:
  assumes "params_ok p" "k_fsize K w < 2 ^ 62"
  shows "checksum (view w) {..<blocks_end (max_blocksize p) (cleanup_size K p w 1)} k
    = checksum (view w) {..<blocks_end (max_blocksize p) (size_p p)} k"
proof (cases "cleanup_size K p w 1 = size_p p")
  case False
  let ?n = "blocks_end (max_blocksize p) (cleanup_size K p w 1)"
  let ?m = "blocks_end (max_blocksize p) (size_p p)"
  have c: "cleanup_size K p w 1 = k_fsize K w + int (max_blocksize p)" "cleanup_size K p w 1 \<le> size_p p"
    using False first_size(1) [OF assms] by auto
  have gt: "cleanup_size K p w 1 < int ?n"
    using assms(1) by (intro blocks_end_gt) (simp add: params_ok_def)
  have "{..<?m} = {..<?n} \<union> {?n..<?m}"
    using blocks_end_mono [OF c(2), of "max_blocksize p"] by auto
  moreover have "checksum (view w) ({..<?n} \<union> {?n..<?m}) k
      = checksum (view w) {..<?n} k XOR checksum (view w) {?n..<?m} k"
    by (rule checksum_union) auto
  ultimately have "checksum (view w) {..<?m} k = checksum (view w) {..<?n} k XOR checksum (view w) {?n..<?m} k"
    by metis
  moreover have "checksum (view w) {?n..<?m} k = 0"
    using c gt by (intro checksum_zero fsize_end) auto
  ultimately show ?thesis by simp
qed simp

lemma first_cleanup:
  assumes "params_ok p" "k_fsize K (world c) < 2 ^ 62" "buffers_ok (max_blocksize p) c" "hash c = chk_zero"
  obtains c' s where "cleanup K p c 1 = Some (c', s)" "buffers_ok (max_blocksize p) c'"
    "s = Ret 0 \<and> consistent (blocks_end (max_blocksize p) (size_p p)) c' \<or> s = Ret 1"
proof -
  obtain c' s where c: "cleanup K p c 1 = Some (c', s)" "buffers_ok (max_blocksize p) c'"
    "s = Ret 0 \<or> s = Ret 1" "s = Ret 0 \<Longrightarrow> view (world c') = view (world c)"
    and x: "\<And>k. s = Ret 0 \<Longrightarrow> k < 9 \<Longrightarrow> xors (hash c') ! k = xors (hash c) ! k XOR
      checksum (view (world c)) {..<blocks_end (max_blocksize p) (cleanup_size K p (world c) 1)} k"
    by (rule cleanup_reads [OF assms(1,3) first_size(2,3) [OF assms(1,2)]]) blast
  have "k < 9 \<Longrightarrow> xors chk_zero ! k = 0" for k
    by (simp add: chk_zero_def nth_Cons split: nat.splits)
  with x c(4) have "s = Ret 0 \<Longrightarrow> consistent (blocks_end (max_blocksize p) (size_p p)) c'"
    by (simp add: consistent_def assms(4) preread_covers [OF assms(1,2)])
  with c that show thesis by blast
qed

lemma last_cleanup:
  assumes "params_ok p" "buffers_ok (max_blocksize p) c" "hash_is (blocks_end (max_blocksize p) (size_p p)) f c"
  obtains c' s where "cleanup K p c 0 = Some (c', s)" "length (xors (hash c')) = 9" "s = Ret 0 \<or> s = Ret 1"
    "\<And>k. s = Ret 0 \<Longrightarrow> k < 9 \<Longrightarrow> xors (hash c') ! k
      = checksum (\<lambda>q. f q XOR view (world c) q) {..<blocks_end (max_blocksize p) (size_p p)} k"
proof -
  have sz: "cleanup_size K p (world c) 0 = size_p p" "0 \<le> size_p p" "size_p p < 2 ^ 62"
    using assms(1) by (simp_all add: cleanup_size_def params_ok_def)
  obtain c' s where c: "cleanup K p c 0 = Some (c', s)" "buffers_ok (max_blocksize p) c'" "s = Ret 0 \<or> s = Ret 1"
    and x: "\<And>k. s = Ret 0 \<Longrightarrow> k < 9 \<Longrightarrow> xors (hash c') ! k = xors (hash c) ! k XOR
      checksum (view (world c)) {..<blocks_end (max_blocksize p) (size_p p)} k"
    by (rule cleanup_reads [OF assms(1,2), of 0, unfolded sz(1), OF sz(2,3)]) blast
  have "length (xors (hash c')) = 9"
    using c(2) by (simp add: buffers_ok_def chk_ok_def)
  with c x assms(3) that show thesis
    by (simp add: hash_is_def checksum_xor)
qed

section \<open>The program\<close>

lemma run_iterations:
  assumes "params_ok p" "(word_of_int (max_chainlen p) :: u32) \<noteq> 0"
    and "buffers_ok (max_blocksize p) c" and n: "n = blocks_end (max_blocksize p) (size_p p)"
  shows "\<exists>c' s. iterations K p sig m i c = Some (c', s) \<and> buffers_ok (max_blocksize p) c' \<and>
    (s = Ret 0 \<and> (consistent n c \<longrightarrow> consistent n c') \<or> s = Ret 1)"
proof -
  have "0 < max_blocksize p"
    using assms(1) by (simp add: params_ok_def)
  then have "size_p p \<le> int n" "max_blocksize p \<le> n"
    using blocks_end_gt [of "max_blocksize p" "size_p p"] unfolding n by (simp_all add: blocks_end_def)
  from iterations_keep [OF assms(1,2) this assms(3)] show ?thesis .
qed

lemma no_alarm:
  assumes "startable K p c"
  shows "\<exists>c1 s1 c2 s2. cleanup K p c 1 = Some (c1, s1) \<and> (s1 = Ret 0 \<or> s1 = Ret 1) \<and>
    fstest_run K p sig c = Some (c2, s2) \<and> (s2 = Ret 0 \<or> s2 = Ret 1 \<or> s2 = Ret 2 \<and> s1 = Ret 1)"
proof -
  let ?n = "blocks_end (max_blocksize p) (size_p p)"
  have a: "params_ok p" "(word_of_int (max_chainlen p) :: u32) \<noteq> 0" "buffers_ok (max_blocksize p) c"
    "hash c = chk_zero" "k_fsize K (world c) < 2 ^ 62"
    using assms by (simp_all add: startable_def)
  obtain c1 s1 where 1: "cleanup K p c 1 = Some (c1, s1)" "buffers_ok (max_blocksize p) c1"
    "s1 = Ret 0 \<and> consistent ?n c1 \<or> s1 = Ret 1"
    by (rule first_cleanup [OF a(1,5,3,4)])
  obtain c2 s2 where 2: "iterations K p sig (nat (num_iterations p)) 0 c1 = Some (c2, s2)"
    "buffers_ok (max_blocksize p) c2" "s2 = Ret 0 \<and> (consistent ?n c1 \<longrightarrow> consistent ?n c2) \<or> s2 = Ret 1"
    using run_iterations [OF a(1,2) 1(2) refl] by blast
  have sz: "0 \<le> cleanup_size K p (world c2) 0" "cleanup_size K p (world c2) 0 < 2 ^ 62"
    using a(1) by (simp_all add: cleanup_size_def params_ok_def)
  obtain c3 s3 where 3: "cleanup K p c2 0 = Some (c3, s3)" "s3 = Ret 0 \<or> s3 = Ret 1"
    by (rule cleanup_reads [OF a(1) 2(2) sz])
  have "\<not> list_ex (\<lambda>x. x \<noteq> 0) (xors (hash c3))" if ok: "s1 = Ret 0" "s2 = Ret 0" "s3 = Ret 0"
  proof -
    have "hash_is ?n (view (world c2)) c2"
      using 1(3) 2(3) ok by (simp add: consistent_hash_is)
    from last_cleanup [OF a(1) 2(2) this] 3(1) ok(3)
    have "length (xors (hash c3)) = 9" "k < 9 \<Longrightarrow> xors (hash c3) ! k = 0" for k
      by (auto simp: checksum_zero)
    then show ?thesis
      by (auto simp: list_ex_length)
  qed
  then show ?thesis
    using 1 2 3 by (auto simp: fstest_run_def last_pass_def verdict_def)
qed

lemma before_last:
  assumes "startable K p c" "cleanup K p c 1 = Some (c1, Ret 0)" "iterations K p sig m 0 c1 = Some (c2, Ret 0)"
  shows "params_ok p" "buffers_ok (max_blocksize p) c2"
    "hash_is (blocks_end (max_blocksize p) (size_p p)) (view (world c2)) c2"
proof -
  have a: "params_ok p" "(word_of_int (max_chainlen p) :: u32) \<noteq> 0" "buffers_ok (max_blocksize p) c"
    "hash c = chk_zero" "k_fsize K (world c) < 2 ^ 62"
    using assms by (simp_all add: startable_def)
  show "params_ok p" by fact
  have "buffers_ok (max_blocksize p) c1" "consistent (blocks_end (max_blocksize p) (size_p p)) c1"
    using first_cleanup [OF a(1,5,3,4)] assms(2) by auto
  with run_iterations [OF a(1,2) this(1) refl, of sig m 0] assms(3)
  show "buffers_ok (max_blocksize p) c2" "hash_is (blocks_end (max_blocksize p) (size_p p)) (view (world c2)) c2"
    by (auto simp: consistent_hash_is)
qed

lemma last_pass_completed:
  assumes "startable K p c" "cleanup K p c 1 = Some (c1, Ret 0)" "iterations K p sig m 0 c1 = Some (c2, Ret 0)"
    and "last_pass K p (c2\<lparr>world := w\<rparr>) = Some (c3, s)" "s \<noteq> Ret 1"
  shows "cleanup K p (c2\<lparr>world := w\<rparr>) 0 = Some (c3, Ret 0)" "s = verdict (hash c3)"
proof -
  note b = before_last [OF assms(1-3)]
  have "buffers_ok (max_blocksize p) (c2\<lparr>world := w\<rparr>)" "0 \<le> cleanup_size K p w 0" "cleanup_size K p w 0 < 2 ^ 62"
    using b by (simp_all add: buffers_ok_def cleanup_size_def params_ok_def)
  then obtain c' s' where "cleanup K p (c2\<lparr>world := w\<rparr>) 0 = Some (c', s')" "s' = Ret 0 \<or> s' = Ret 1"
    using cleanup_reads [OF b(1), of "c2\<lparr>world := w\<rparr>" 0] by (metis tester.select_convs(1) tester.surjective tester.update_convs(1))
  with assms(4,5) show "cleanup K p (c2\<lparr>world := w\<rparr>) 0 = Some (c3, Ret 0)" "s = verdict (hash c3)"
    by (auto simp: last_pass_def split: if_splits)
qed

lemma residue:
  assumes "startable K p c" "cleanup K p c 1 = Some (c1, Ret 0)" "iterations K p sig m 0 c1 = Some (c2, Ret 0)"
    and "last_pass K p (c2\<lparr>world := w\<rparr>) = Some (c3, s)" "s \<noteq> Ret 1"
  shows "length (xors (hash c3)) = 9" and "k < 9 \<Longrightarrow> xors (hash c3) ! k =
    checksum (\<lambda>q. view (world c2) q XOR view w q) {..<blocks_end (max_blocksize p) (size_p p)} k"
    and "s = verdict (hash c3)"
proof -
  note b = before_last [OF assms(1-3)]
  note l = last_pass_completed [OF assms]
  have "buffers_ok (max_blocksize p) (c2\<lparr>world := w\<rparr>)"
    "hash_is (blocks_end (max_blocksize p) (size_p p)) (view (world c2)) (c2\<lparr>world := w\<rparr>)"
    using b by (simp_all add: buffers_ok_def hash_is_def)
  from last_cleanup [OF b(1) this] l
  show "length (xors (hash c3)) = 9" and "k < 9 \<Longrightarrow> xors (hash c3) ! k =
    checksum (\<lambda>q. view (world c2) q XOR view w q) {..<blocks_end (max_blocksize p) (size_p p)} k"
    and "s = verdict (hash c3)"
    by auto
qed

end

section \<open>A kernel\<close>

text \<open>The disk with its fault schedule and random bytes is one; \<open>fsync\<close> changes nothing there.\<close>

definition disk_kernel :: "disk kernel_ops" where
  "disk_kernel = \<lparr>k_pread = disk_pread, k_pwrite = disk_pwrite, k_read = disk_read,
     k_fsync = \<lambda>w. w, k_fsize = \<lambda>w. int (length (contents w))\<rparr>"

interpretation dk: fs_kernel disk_kernel disk_pending disk_view
proof (rule fs_kernel.intro)
  show "pread_op (k_pread disk_kernel) disk_pending disk_view"
    by (simp add: disk_kernel_def disk_rd.pread_op_axioms)
  show "pwrite_full (k_pwrite disk_kernel) disk_pending disk_view"
    by (simp add: disk_kernel_def disk_wr.pwrite_full_axioms)
  show "random_source (k_read disk_kernel) disk_pending disk_view"
    by (simp add: disk_kernel_def disk_rnd.random_source_axioms)
  show "fs_kernel_axioms disk_kernel disk_view"
    by unfold_locales (auto simp: disk_kernel_def disk_pread_def disk_view_def)
qed

text \<open>A start on a small disk with an interruption pending, and the states that follow.\<close>

definition small_params :: params where
  "small_params = \<lparr>filename = ''f'', size_p = 2, num_iterations = 1, max_blocksize = 2,
     random_filename = ''r'', max_chainlen = 1, sync_part = 0\<rparr>"

definition small_disk :: "byte list \<Rightarrow> byte list \<Rightarrow> disk" where
  "small_disk file rand = \<lparr>contents = file, schedule = [], randomness = rand\<rparr>"

definition small_tester :: "disk tester" where
  "small_tester = \<lparr>world = small_disk [1, 2] (replicate 12 0 @ [1, 0, 0, 0, 0, 0, 0, 0, 2, 7])
       \<lparr>schedule := [Interrupt]\<rparr>, hash = chk_zero, buf1 = [9, 9], buf2 = [8, 8]\<rparr>"

definition small_read :: "disk tester" where
  "small_read = \<lparr>world = small_disk [1, 2] (replicate 12 0 @ [1, 0, 0, 0, 0, 0, 0, 0, 2, 7]),
     hash = \<lparr>xors = [2, 0, 0, 0, 0, 0, 0, 0, 3]\<rparr>, buf1 = [0, 0], buf2 = [0, 0]\<rparr>"

definition small_written :: "disk tester" where
  "small_written = \<lparr>world = small_disk [7, 2] [],
     hash = \<lparr>xors = [2, 0, 0, 0, 0, 0, 0, 0, 5]\<rparr>, buf1 = [1, 0], buf2 = [7, 0]\<rparr>"

lemma small_startable: "startable disk_kernel small_params small_tester"
  by (simp add: startable_def params_ok_def buffers_ok_def small_params_def small_tester_def
      disk_kernel_def chk_ok_def chk_zero_def small_disk_def)

lemma small_first: "cleanup disk_kernel small_params small_tester 1 = Some (small_read, Ret 0)"
  by code_simp

lemma small_iteration:
  "iterations disk_kernel small_params (\<lambda>_. False) 1 0 small_read = Some (small_written, Ret 0)"
  by code_simp

definition small_final :: "byte list \<Rightarrow> byte list \<Rightarrow> disk tester" where
  "small_final file sums = \<lparr>world = small_disk file [], hash = \<lparr>xors = sums\<rparr>, buf1 = [0, 0], buf2 = [0, 0]\<rparr>"

lemma small_last_changed:
  "last_pass disk_kernel small_params (small_written\<lparr>world := small_disk [7, 3] []\<rparr>)
     = Some (small_final [7, 3] [1, 0, 0, 0, 0, 0, 0, 0, 1], Ret 2)"
  by code_simp

lemma small_last_exchanged:
  "last_pass disk_kernel small_params (small_written\<lparr>world := small_disk [2, 7] []\<rparr>)
     = Some (small_final [2, 7] [5, 0, 0, 0, 0, 0, 0, 0, 0], Ret 2)"
  by code_simp

section \<open>What the verdict means\<close>

lemma verdict_fail: "k < length (xors st) \<Longrightarrow> xors st ! k \<noteq> 0 \<Longrightarrow> verdict st = Ret 2"
  by (auto simp: verdict_def list_ex_length)

text \<open>
  C6: \<open>fstest\<close> always returns, with status 0, 1 or 2, on every kernel that honours the documented
  behaviour of \<open>pread\<close>, \<open>pwrite\<close>, \<open>read\<close>, \<open>fsync\<close> and \<open>fstat\<close> on a file that keeps what was written, with any
  short transfers, interruptions and errors. There, the status 2 ("fail") has one cause only:
  the first pass over the file was itself cut off by a hard error, which the program ignores.
\<close>
theorem fstest_false_alarm_cause:
  assumes "fs_kernel K pending view" and "startable K p c"
  shows "\<exists>c1 s1 c2 s2. cleanup K p c 1 = Some (c1, s1) \<and> (s1 = Ret 0 \<or> s1 = Ret 1) \<and>
    fstest_run K p sig c = Some (c2, s2) \<and> (s2 = Ret 0 \<or> s2 = Ret 1 \<or> s2 = Ret 2 \<and> s1 = Ret 1)"
  by (rule fs_kernel.no_alarm [OF assms])

theorem fstest_false_alarm_cause_witness:
  "\<exists>c2 s2. fstest_run disk_kernel small_params (\<lambda>_. False) small_tester = Some (c2, s2) \<and>
    (s2 = Ret 0 \<or> s2 = Ret 1)"
  using fstest_false_alarm_cause [OF dk.fs_kernel_axioms small_startable, of "\<lambda>_. False"] small_first
  by auto

text \<open>
  C8: the verdict is about the exclusive or of what was last written and what is read
  back: whatever the file system did to the contents between the last iteration and the last pass
  (\<open>w\<close>), if the last pass can read the file, it ends with status 2 ("fail") when one of the nine
  checksums of the difference is not zero, and with status 0 otherwise.
\<close>
theorem fstest_residue:
  assumes "fs_kernel K pending view" and "startable K p c"
    and "cleanup K p c 1 = Some (c1, Ret 0)" and "iterations K p sig m 0 c1 = Some (c2, Ret 0)"
    and "last_pass K p (c2\<lparr>world := w\<rparr>) = Some (c3, s)" and "s \<noteq> Ret 1"
  shows "s = (if \<exists>k < 9. checksum (\<lambda>q. view (world c2) q XOR view w q)
      {..<blocks_end (max_blocksize p) (size_p p)} k \<noteq> 0 then Ret 2 else Ret 0)"
  using fs_kernel.residue [OF assms] by (auto simp: verdict_def list_ex_length)

theorem fstest_residue_witness:
  "\<exists>k < 9. checksum (\<lambda>q. disk_view (world small_written) q XOR disk_view (small_disk [7, 3] []) q)
     {..<blocks_end 2 2} k \<noteq> 0"
  using fstest_residue [OF dk.fs_kernel_axioms small_startable small_first small_iteration small_last_changed]
  by (simp add: small_params_def split: if_splits) blast

text \<open>
  C9: one changed byte anywhere in the part of the file that is checked is always reported: if the
  last pass can read the file, it ends with status 2.
\<close>
theorem fstest_detects_changed_byte:
  assumes "fs_kernel K pending view" and "startable K p c"
    and "cleanup K p c 1 = Some (c1, Ret 0)" and "iterations K p sig m 0 c1 = Some (c2, Ret 0)"
    and "view w = (view (world c2))(q := b)" and "b \<noteq> view (world c2) q"
    and "q < blocks_end (max_blocksize p) (size_p p)"
    and "last_pass K p (c2\<lparr>world := w\<rparr>) = Some (c3, s)" and "s \<noteq> Ret 1"
  shows "s = Ret 2"
proof -
  note res = fs_kernel.residue [OF assms(1-4,8,9)]
  have "checksum (\<lambda>x. view (world c2) x XOR view w x) {..<blocks_end (max_blocksize p) (size_p p)} 8
      = (if covers 8 (int q) then view (world c2) q XOR view w q else 0)"
    using assms(5,7) by (intro checksum_single) auto
  with res(2) [of 8] have "xors (hash c3) ! 8 = view (world c2) q XOR b"
    using assms(5) by (simp add: covers_def)
  then have "xors (hash c3) ! 8 \<noteq> 0"
    using assms(6) by (auto simp: xor_zero_iff)
  then show ?thesis
    using res(1,3) verdict_fail [of 8 "hash c3"] by simp
qed

theorem fstest_detects_changed_byte_witness:
  "\<exists>c3. last_pass disk_kernel small_params (small_written\<lparr>world := small_disk [7, 3] []\<rparr>) = Some (c3, Ret 2)"
proof -
  obtain c3 s where l: "last_pass disk_kernel small_params (small_written\<lparr>world := small_disk [7, 3] []\<rparr>)
      = Some (c3, s)" "s \<noteq> Ret 1"
    using small_last_changed by simp
  have "s = Ret 2"
    by (rule fstest_detects_changed_byte [OF dk.fs_kernel_axioms small_startable small_first small_iteration
        _ _ _ l, of 1 3])
      (auto simp: small_written_def small_disk_def disk_view_def small_params_def blocks_end_def nth_Cons
        split: nat.splits)
  then show ?thesis
    using l by blast
qed

text \<open>
  C10: two different bytes that changed places are reported unless their positions are the same
  modulo 256: the eight checksums by position are there for this.
\<close>
theorem fstest_detects_exchange:
  assumes "fs_kernel K pending view" and "startable K p c"
    and "cleanup K p c 1 = Some (c1, Ret 0)" and "iterations K p sig m 0 c1 = Some (c2, Ret 0)"
    and "view w = (view (world c2))(q := view (world c2) r, r := view (world c2) q)"
    and "view (world c2) q \<noteq> view (world c2) r" and "q mod 256 \<noteq> r mod 256"
    and "q < blocks_end (max_blocksize p) (size_p p)" and "r < blocks_end (max_blocksize p) (size_p p)"
    and "last_pass K p (c2\<lparr>world := w\<rparr>) = Some (c3, s)" and "s \<noteq> Ret 1"
  shows "s = Ret 2"
proof -
  note res = fs_kernel.residue [OF assms(1-4,10,11)]
  have "take_bit 8 q \<noteq> take_bit 8 r"
    using assms(7) by (simp add: take_bit_eq_mod)
  then obtain k where k: "k < 8" "bit q k \<noteq> bit r k"
    by (metis bit_eqI bit_take_bit_iff)
  let ?d = "\<lambda>x. view (world c2) x XOR view w x"
  have "checksum ?d {..<blocks_end (max_blocksize p) (size_p p)} k
      = (if covers k (int q) then ?d q else 0) XOR (if covers k (int r) then ?d r else 0)"
    using assms(5,7-9) by (intro checksum_pair) auto
  with res(2) [of k] k(1)
  have "xors (hash c3) ! k = (if covers k (int q) then ?d q else 0) XOR (if covers k (int r) then ?d r else 0)"
    by simp
  then have "xors (hash c3) ! k = view (world c2) q XOR view (world c2) r"
    using k assms(5,7) by (auto simp: covers_def bit_of_nat_iff_bit xor.commute)
  then have "xors (hash c3) ! k \<noteq> 0"
    using assms(6) by (auto simp: xor_zero_iff)
  with k(1) res(1,3) show ?thesis
    using verdict_fail [of k "hash c3"] by simp
qed

theorem fstest_detects_exchange_witness:
  "\<exists>c3. last_pass disk_kernel small_params (small_written\<lparr>world := small_disk [2, 7] []\<rparr>) = Some (c3, Ret 2)"
proof -
  obtain c3 s where l: "last_pass disk_kernel small_params (small_written\<lparr>world := small_disk [2, 7] []\<rparr>)
      = Some (c3, s)" "s \<noteq> Ret 1"
    using small_last_exchanged by simp
  have "s = Ret 2"
    by (rule fstest_detects_exchange [OF dk.fs_kernel_axioms small_startable small_first small_iteration
        _ _ _ _ _ l, of 0 1])
      (auto simp: small_written_def small_disk_def disk_view_def small_params_def blocks_end_def nth_Cons
        split: nat.splits)
  then show ?thesis
    using l by blast
qed

text \<open>
  The exit status of the first pass is ignored: one read error there, on a disk that keeps
  everything that was written, makes \<open>fstest\<close> report a failure of the file system (exit status 2).
\<close>
theorem fstest_failed_preread_alarm:
  "map_option snd (fstest_run disk_kernel (small_params\<lparr>num_iterations := 0\<rparr>) (\<lambda>_. False)
     (small_tester\<lparr>world := small_disk [1, 2] []\<lparr>schedule := [Broken 5]\<rparr>\<rparr>)) = Some (Ret 2)"
  by code_simp

end
