(* ===== verification/Fstest_Reliable.thy ===== *)
theory Fstest_Reliable
  imports Fstest_Correct
begin

text \<open>
  \<open>fstest.c\<close> on a machine without hard errors: short transfers and interruptions are still allowed,
  but no call fails for good. There the program passes: both passes over the file and all
  iterations run to their end and the exit status is 0. The one exception is a random offset that has
  no absolute value.
\<close>

section \<open>Calls that do not fail\<close>

locale steady_fileop = fileop +
  assumes no_error: "func w buf q = (w', buf', Err e) \<Longrightarrow> 0 \<le> q \<Longrightarrow> e = EAGAIN \<or> e = EINTR"
begin

lemma steady_loop:
  "fileop_loop func w q front rest = Some (w', b, r) \<Longrightarrow> 0 \<le> q \<Longrightarrow> r = 0"
proof (induction "pending w + length rest" arbitrary: w q front rest rule: less_induct)
  case less
  show ?case
  proof (cases "rest = []")
    case True
    with less.prems show ?thesis by (simp add: fileop_loop.simps)
  next
    case rest: False
    obtain w1 rest1 ret where f: "func w rest q = (w1, rest1, ret)"
      by (metis prod_cases3)
    note loop = less.prems(1) [unfolded fileop_loop.simps [of func w q front rest] f prod.case]
    show ?thesis
    proof (cases ret)
      case (Done n)
      note d = transfer_le [OF f [unfolded Done]] transfer_pending [OF f [unfolded Done]] transfer_len [OF f]
      show ?thesis
      proof (cases "n = 0")
        case False
        then have "pending w1 + length (drop n rest1) < pending w + length rest"
          using rest d by simp
        from less.hyps [OF this, of "q + int n" "front @ take n rest1"] show ?thesis
          using loop rest Done False less.prems(2) by simp
      qed (use loop rest Done in simp)
    next
      case (Err e)
      have e: "e = EAGAIN \<or> e = EINTR"
        using no_error [OF f [unfolded Err] less.prems(2)] .
      from retry_pending [OF f [unfolded Err] e] transfer_len [OF f]
      have "pending w1 + length rest1 < pending w + length rest" by simp
      from less.hyps [OF this, of q front] show ?thesis
        using loop rest Err e less.prems(2) by auto
    qed
  qed
qed

lemma steady_safe: "safe_fileop func w q len buf = Some (w', b, r) \<Longrightarrow> 0 \<le> q \<Longrightarrow> r = 0"
  using steady_loop [of w q "[]" "take len buf"] by (auto simp: safe_fileop_def split: Option.bind_splits)

end

locale reliable_kernel = fs_kernel K pending view
  for K :: "'w kernel_ops" and pending :: "'w \<Rightarrow> nat" and view :: "'w \<Rightarrow> nat \<Rightarrow> byte" +
  assumes pread_steady: "k_pread K w buf q = (w', buf', Err e) \<Longrightarrow> 0 \<le> q \<Longrightarrow> e = EAGAIN \<or> e = EINTR"
    and pwrite_steady: "k_pwrite K w buf q = (w', buf', Err e) \<Longrightarrow> 0 \<le> q \<Longrightarrow> e = EAGAIN \<or> e = EINTR"
    and read_steady: "k_read K w buf = (w', buf', Err e) \<Longrightarrow> e = EAGAIN \<or> e = EINTR"

sublocale reliable_kernel \<subseteq> srd: steady_fileop "k_pread K" pending
  by unfold_locales (rule pread_steady)

sublocale reliable_kernel \<subseteq> swr: steady_fileop "k_pwrite K" pending
  by unfold_locales (rule pwrite_steady)

sublocale reliable_kernel \<subseteq> srnd: steady_fileop "fake_pread (k_read K)" pending
  by unfold_locales (auto simp: fake_pread_def dest: read_steady)

section \<open>Functions that do not fail\<close>

context reliable_kernel
begin

lemma randomize_succeeds: "RANDOMIZE K w n = Some (w', b, r) \<Longrightarrow> r = 0"
  unfolding RANDOMIZE_def by (erule srnd.steady_safe) simp

lemma insert_block_succeeds:
  "insert_block K st w q len buf nd mode = Some (st', w', b, nd', r) \<Longrightarrow> 0 \<le> q \<Longrightarrow> r = 0"
  by (auto simp: insert_block_def Let_def split: Option.bind_splits if_splits
      dest!: srd.steady_safe swr.steady_safe)

lemma generate_block_succeeds: "generate_block K w len buf = Some (w', b, r) \<Longrightarrow> r = 0"
  by (auto simp: generate_block_def Let_def split: Option.bind_splits if_splits
      dest!: randomize_succeeds srnd.steady_safe)

lemma chain_sync_succeeds: "chain_sync K p w = Some (w', b, r) \<Longrightarrow> r = 0"
  by (auto simp: chain_sync_def Let_def split: Option.bind_splits if_splits dest: randomize_succeeds)

lemma chain_loop_succeeds:
  assumes "chain_loop K p len k c off = Some (c', s)" "params_ok p" "len \<le> max_blocksize p"
    and "0 \<le> off" "off \<le> size_p p"
  shows "s = Ret 0"
  using assms(1,4,5)
proof (induction k arbitrary: c off)
  case 0
  then show ?case by simp
next
  case (Suc k)
  obtain w1 b r st w2 b1 b2 r2 where calls:
    "chain_sync K p (world c) = Some (w1, b, r)"
    "insert_block K (hash c) w1 (if wraps p len off then 0 else off) len (buf1 c) (buf2 c)
      (if b then 0 else 2) = Some (st, w2, b1, b2, r2)"
    by (rule chain_calls)
  have r: "r = 0" "r2 = 0"
    using chain_sync_succeeds [OF calls(1)] insert_block_succeeds [OF calls(2)] Suc.prems(2) by auto
  show ?case
  proof (cases "wraps p len off")
    case True
    with Suc.prems(1) r show ?thesis
      unfolding chain_loop_step [OF calls] Let_def by simp
  next
    case False
    then have fits: "off + int len \<le> size_p p"
      unfolding wraps_def using assms(2,3) Suc.prems(2,3)
      by (elim no_wrap_fits) (auto simp: params_ok_def)
    then have "in_s64 (off + int len)"
      using assms(2) Suc.prems(2) by (simp add: in_s64_def params_ok_def)
    with Suc.prems(1) r False
    have "chain_loop K p len k (c\<lparr>world := w2, hash := st, buf1 := b1, buf2 := b2\<rparr>) (off + int len) = Some (c', s)"
      unfolding chain_loop_step [OF calls] Let_def by (simp add: s64_id)
    then show ?thesis
      using Suc.IH fits Suc.prems(2) by fastforce
  qed
qed

lemma cleanup_loop_succeeds:
  assumes "cleanup_loop K mb fsz c off = Some x" "0 \<le> off" "fsz < 2 ^ 62" "mb < 2 ^ 31"
  shows "snd x = Ret 0"
proof -
  let ?P = "\<lambda>K' mb fsz (c :: 'w tester) off (x :: 'w tester \<times> status).
    K' = K \<longrightarrow> 0 \<le> off \<longrightarrow> fsz < 2 ^ 62 \<longrightarrow> mb < 2 ^ 31 \<longrightarrow> snd x = Ret 0"
  have "?P K mb fsz c off x"
  proof (rule cleanup_loop.raw_induct [where P = ?P, OF _ assms(1)], intro impI, goal_cases)
    case (1 f K' mb fsz c off x)
    show ?case
    proof (cases "off \<le> fsz")
      case True
      then have "in_s64 (off + int mb)"
        using 1 by (simp add: in_s64_def)
      then have "0 \<le> s64 (off + int mb)"
        using 1(4) by (simp add: s64_id)
      moreover obtain st w1 b1 b2 where
          "insert_block K (hash c) (world c) off mb (buf1 c) (buf2 c) 1 = Some (st, w1, b1, b2, 0)"
        using 1(2,3) True insert_block_succeeds [OF _ 1(4)] by (force split: Option.bind_splits)
      ultimately show ?thesis
        using 1 True by (fastforce simp: Let_def)
    qed (use 1 in auto)
  qed
  then show ?thesis
    using assms(2-) by simp
qed

lemma cleanup_succeeds:
  assumes "cleanup K p c mode = Some (c', s)" "params_ok p" "cleanup_size K p (world c) mode < 2 ^ 62"
  shows "s = Ret 0"
  using assms cleanup_loop_succeeds by (fastforce simp: cleanup_def params_ok_def)

text \<open>
  The random offset is made positive by \<open>offset = - offset\<close>; this fails for one of the \<open>2 ^ 64\<close> values.
\<close>

definition draws_min :: "'w \<Rightarrow> bool" where
  "draws_min w \<longleftrightarrow> (\<exists>w' b. RANDOMIZE K w 8 = Some (w', b, 0) \<and> s64 (le_value b) = - (2 ^ 63))"

lemma insert_chain_succeeds:
  assumes run: "insert_chain K p c = Some (c', s)" and p: "params_ok p" "(word_of_int (max_chainlen p) :: u32) \<noteq> 0"
    and min: "\<not> draws_min (world c)"
  shows "s = Ret 0"
proof -
  obtain w1 ob where 1: "RANDOMIZE K (world c) 8 = Some (w1, ob, 0)"
    using randomize_total randomize_succeeds by metis
  obtain w2 rb where 2: "RANDOMIZE K w1 4 = Some (w2, rb, 0)"
    using randomize_total randomize_succeeds by metis
  obtain w3 lb where 3: "RANDOMIZE K w2 8 = Some (w3, lb, 0)"
    using randomize_total randomize_succeeds by metis
  define o1 where "o1 = (let o0 = s64 (le_value ob) in if o0 < 0 then s64 (- o0) else o0)"
  define n where "n = nat (le_value lb mod int (max_blocksize p))"
  obtain w4 b where 4: "generate_block K w3 n (buf2 c) = Some (w4, b, 0)"
    using generate_block_total generate_block_succeeds by metis
  have "s64 (le_value ob) \<noteq> - (2 ^ 63)"
    using min 1 unfolding draws_min_def by blast
  then have "in_s64 (- s64 (le_value ob))"
    using s64_range [of "le_value ob"] by (simp add: in_s64_def)
  then have "0 \<le> o1"
    by (auto simp: o1_def Let_def s64_id)
  then have "0 \<le> o1 smod size_p p" "o1 smod size_p p \<le> size_p p"
    using p(1) by (simp_all add: params_ok_def smod_nonneg pos_mod_bound less_imp_le)
  moreover have "n \<le> max_blocksize p"
    using p(1) by (simp add: n_def params_ok_def nat_le_iff pos_mod_bound less_imp_le)
  moreover have "uint (word_of_int (max_chainlen p) :: u32) \<noteq> 0"
    using p(2) by (simp add: uint_0_iff)
  then have "insert_chain K p c = chain_loop K p n (nat (le_value rb mod uint (word_of_int (max_chainlen p) :: u32)) + 1)
      (c\<lparr>world := w4, buf2 := b\<rparr>) (o1 smod size_p p)"
    using p(1) 4 unfolding insert_chain_def
    by (simp add: 1 2 3 Let_def o1_def n_def params_ok_def del: chain_loop.simps)
  ultimately show ?thesis
    using run chain_loop_succeeds p(1) by metis
qed

lemma iterations_succeed:
  assumes "params_ok p" "(word_of_int (max_chainlen p) :: u32) \<noteq> 0"
    and "iterations K p sig m i c = Some (c', s)" "s \<noteq> Ret 0"
  shows "\<exists>k c1. k < m \<and> iterations K p sig k i c = Some (c1, Ret 0) \<and> draws_min (world c1)"
  using assms(3)
proof (induction m arbitrary: i c)
  case 0
  with assms(4) show ?case by simp
next
  case (Suc m)
  then have go: "\<not> sig i"
    using assms(4) by auto
  then obtain c1 s1 where 1: "insert_chain K p c = Some (c1, s1)"
    using Suc.prems by (auto split: Option.bind_splits)
  show ?case
  proof (cases "draws_min (world c)")
    case True
    then show ?thesis
      by (intro exI [of _ 0]) simp
  next
    case False
    then have "s1 = Ret 0"
      by (rule insert_chain_succeeds [OF 1 assms(1,2)])
    with Suc.IH [of "Suc i" c1] Suc.prems go 1
    obtain k c2 where "k < m" "iterations K p sig k (Suc i) c1 = Some (c2, Ret 0)" "draws_min (world c2)"
      by auto
    with go 1 \<open>s1 = Ret 0\<close> show ?thesis
      by (intro exI [of _ "Suc k"]) simp
  qed
qed

lemma run_succeeds:
  assumes "startable K p c"
  shows "\<exists>c1 c2 s. cleanup K p c 1 = Some (c1, Ret 0) \<and> fstest_run K p sig c = Some (c2, s) \<and>
    (s = Ret 0 \<or> s = Ret 1 \<and> (\<exists>k c'. k < nat (num_iterations p) \<and>
      iterations K p sig k 0 c1 = Some (c', Ret 0) \<and> draws_min (world c')))"
proof -
  have a: "params_ok p" "(word_of_int (max_chainlen p) :: u32) \<noteq> 0" "buffers_ok (max_blocksize p) c"
    "k_fsize K (world c) < 2 ^ 62"
    using assms by (simp_all add: startable_def)
  obtain c1 s1 c2 s where 1: "cleanup K p c 1 = Some (c1, s1)" "fstest_run K p sig c = Some (c2, s)"
    and s: "s1 = Ret 0 \<longrightarrow> s = Ret 0 \<or> s = Ret 1"
    using no_alarm [OF assms, of sig] by auto
  have s1: "s1 = Ret 0"
    by (rule cleanup_succeeds [OF 1(1) a(1) first_size(3) [OF a(1,4)]])
  show ?thesis
  proof (cases "s = Ret 0")
    case False
    then have "s = Ret 1" "s \<noteq> Ret 2"
      using s s1 by auto
    moreover obtain c3 s3 where it: "iterations K p sig (nat (num_iterations p)) 0 c1 = Some (c3, s3)"
      using 1 s1 by (auto simp: fstest_run_def last_pass_def verdict_def split: Option.bind_splits)
    moreover have "s3 \<noteq> Ret 0"
    proof
      assume z: "s3 = Ret 0"
      have sz: "cleanup_size K p (world c3) 0 < 2 ^ 62"
        using a(1) by (simp add: cleanup_size_def params_ok_def)
      show False
        using 1 s1 it z \<open>s = Ret 1\<close> cleanup_succeeds [OF _ a(1) sz]
        by (auto simp: fstest_run_def last_pass_def verdict_def split: Option.bind_splits if_splits)
    qed
    ultimately show ?thesis
      using 1 s1 iterations_succeed [OF a(1,2) it] by blast
  qed (use 1 s1 in auto)
qed

end

section \<open>A reliable disk\<close>

text \<open>The disk again, with the hard errors taken out of its schedule before every call.\<close>

fun hard_error :: "fault \<Rightarrow> bool" where
  "hard_error (Broken e) \<longleftrightarrow> True"
| "hard_error _ \<longleftrightarrow> False"

definition calm :: "disk \<Rightarrow> disk" where
  "calm w = w\<lparr>schedule := filter (\<lambda>f. \<not> hard_error f) (schedule w)\<rparr>"

definition calm_kernel :: "disk kernel_ops" where
  "calm_kernel = \<lparr>k_pread = (\<lambda>w. disk_pread (calm w)), k_pwrite = (\<lambda>w. disk_pwrite (calm w)),
     k_read = (\<lambda>w. disk_read (calm w)), k_fsync = (\<lambda>w. w), k_fsize = (\<lambda>w. int (length (contents w)))\<rparr>"

lemma calm_simps [simp]:
  "contents (calm w) = contents w" "disk_view (calm w) = disk_view w" "disk_pending (calm w) \<le> disk_pending w"
  by (auto simp: calm_def disk_pending_def disk_view_def)

lemma calm_schedule:
  assumes "schedule (calm w) = f # fs"
  shows "\<not> hard_error f"
proof -
  have "f \<in> set (schedule (calm w))"
    by (simp add: assms)
  then show ?thesis
    by (simp add: calm_def)
qed

lemma calm_next: "disk_next (calm w) m = (w', Err e) \<Longrightarrow> e = EAGAIN \<or> e = EINTR"
  by (auto simp: disk_next_def split: list.splits fault.splits dest: calm_schedule)

lemma calm_mono:
  "disk_pending w' \<le> disk_pending (calm w) \<Longrightarrow> disk_pending w' \<le> disk_pending w"
  "disk_pending w' < disk_pending (calm w) \<Longrightarrow> disk_pending w' < disk_pending w"
  using calm_simps(3) [of w] by linarith+

lemma calm_fileop: "fileop func disk_pending \<Longrightarrow> fileop (\<lambda>w. func (calm w)) disk_pending"
  by (rule fileop.intro)
    (blast intro: calm_mono dest: fileop.transfer_len fileop.transfer_le fileop.transfer_pending
      fileop.retry_pending)+

interpretation calm_rd: pread_op "\<lambda>w. disk_pread (calm w)" disk_pending disk_view
proof (intro pread_op.intro calm_fileop disk_rd.fileop_axioms)
  show "pread_op_axioms (\<lambda>w. disk_pread (calm w)) disk_view"
    using disk_rd.pread_op_axioms unfolding pread_op_def pread_op_axioms_def by (metis calm_simps(2))
qed

interpretation calm_wr: pwrite_full "\<lambda>w. disk_pwrite (calm w)" disk_pending disk_view
proof (intro pwrite_full.intro pwrite_op.intro calm_fileop disk_wr.fileop_axioms)
  show "pwrite_op_axioms (\<lambda>w. disk_pwrite (calm w)) disk_view"
    using disk_wr.pwrite_op_axioms unfolding pwrite_op_def pwrite_op_axioms_def by (metis calm_simps(2))
  show "pwrite_full_axioms (\<lambda>w. disk_pwrite (calm w))"
    using disk_wr.write_some by unfold_locales blast
qed

interpretation calm_rnd: random_source "\<lambda>w. disk_read (calm w)" disk_pending disk_view
proof (rule random_source.intro)
  fix w w' :: disk and buf buf' r
  assume r: "disk_read (calm w) buf = (w', buf', r)"
  show "length buf' = length buf" "disk_view w' = disk_view w"
    using disk_rnd.random_len [OF r] disk_rnd.random_view [OF r] by simp_all
qed (blast intro: calm_mono dest: disk_rnd.random_le disk_rnd.random_pending disk_rnd.random_retry)+

interpretation calm: reliable_kernel calm_kernel disk_pending disk_view
proof (intro reliable_kernel.intro fs_kernel.intro)
  show "pread_op (k_pread calm_kernel) disk_pending disk_view"
    "pwrite_full (k_pwrite calm_kernel) disk_pending disk_view"
    "random_source (k_read calm_kernel) disk_pending disk_view"
    by (simp_all add: calm_kernel_def calm_rd.pread_op_axioms calm_wr.pwrite_full_axioms
        calm_rnd.random_source_axioms)
  show "fs_kernel_axioms calm_kernel disk_view"
    by unfold_locales (auto simp: calm_kernel_def disk_pread_def disk_view_def)
  show "reliable_kernel_axioms calm_kernel"
    by unfold_locales
      (auto simp: calm_kernel_def disk_pread_def disk_pwrite_def disk_read_def
        split: if_splits prod.splits io_ret.splits dest: calm_next)
qed

section \<open>Properties\<close>

text \<open>
  C7: on a machine whose calls may be interrupted or transfer less than asked but never fail for
  good, and whose file system keeps what was written, \<open>fstest\<close> reads the whole file, runs all its
  iterations and exits with status 0. The only other end is status 1 in one of its iterations that draws
  \<open>- (2 ^ 63)\<close> as its random offset, which has no absolute value.
\<close>
theorem fstest_passes:
  assumes "reliable_kernel K pending view" and "startable K p c"
  shows "\<exists>c1 c2 s. cleanup K p c 1 = Some (c1, Ret 0) \<and> fstest_run K p sig c = Some (c2, s) \<and>
    (s = Ret 0 \<or> s = Ret 1 \<and> (\<exists>k c' w b. k < nat (num_iterations p) \<and>
       iterations K p sig k 0 c1 = Some (c', Ret 0) \<and>
       RANDOMIZE K (world c') 8 = Some (w, b, 0) \<and> s64 (le_value b) = - (2 ^ 63)))"
  using reliable_kernel.run_succeeds [OF assms, of sig]
  unfolding reliable_kernel.draws_min_def [OF assms(1)] by blast

lemma small_startable_calm: "startable calm_kernel small_params small_tester"
  using small_startable by (simp add: startable_def calm_kernel_def disk_kernel_def)

theorem fstest_passes_witness:
  "\<exists>c1 c2 s. cleanup calm_kernel small_params small_tester 1 = Some (c1, Ret 0) \<and>
    fstest_run calm_kernel small_params (\<lambda>_. True) small_tester = Some (c2, s) \<and> (s = Ret 0 \<or> s = Ret 1)"
  using fstest_passes [OF calm.reliable_kernel_axioms small_startable_calm, of "\<lambda>_. True"] by blast

text \<open>
  The exception is real: with a file of three bytes, blocks below three bytes and the offset
  \<open>- (2 ^ 63)\<close>, the remainder is \<open>-2\<close>, the block is placed at a negative position and the run
  fails on a disk without any fault.
\<close>
theorem fstest_min_offset_fails:
  "map_option snd (fstest_run disk_kernel (small_params\<lparr>size_p := 3, max_blocksize := 3\<rparr>) (\<lambda>_. False)
     \<lparr>world = small_disk [1, 2, 3] ([0, 0, 0, 0, 0, 0, 0, 0x80] @ [0, 0, 0, 0] @ [2, 0, 0, 0, 0, 0, 0, 0] @ [2, 7]),
      hash = chk_zero, buf1 = [9, 9, 9], buf2 = [8, 8, 8]\<rparr>) = Some (Ret 1)"
  by code_simp

end
