(* ===== verification/Nat_Timeout.thy ===== *)
theory Nat_Timeout
  imports Decimal Timespec "HOL-Library.Monad_Syntax" "HOL-Library.Multiset"
begin

text \<open>
  \<open>udptimeoutchecker.c\<close>: measures for how long a NAT keeps an idle UDP mapping. The server parses
  a request, and its child replies "B" after a first delay and "A" after a second one. The prober
  doubles the idle time until it fails three times in a row, then bisects, and prints the median
  of three experiments.

  The kernel is an argument: what \<open>recvfrom\<close>, \<open>fork\<close> and the sleeping calls return. A search is a
  function of one attempt, \<open>tr\<close>, that takes a state of the outside world to the next one. The
  loops are \<open>option\<close> valued; they are proved to end for every \<open>tr\<close>.
\<close>

section \<open>The server\<close>

datatype child_action = Sleep timespec | Send string

text \<open>
  What one call of \<open>serve1_nat\<close> does: nothing, leaves the work to a child (in the parent, where \<open>fork\<close>
  did not return 0), or is the child: its sleeps and replies in order and its exit status.
\<close>

datatype served = Ignored | Forked | Child "child_action list" int

text \<open>\<open>sscanf(buf, "%lu%lu%lu%lu", ...)\<close>, when it fills in all four.\<close>

definition scan_request :: "string \<Rightarrow> (u64 \<times> u64 \<times> u64 \<times> u64) option" where
  "scan_request buf = do {
     (secs1, r1) \<leftarrow> scan_lu buf;
     (nanos1, r2) \<leftarrow> scan_lu r1;
     (secs2, r3) \<leftarrow> scan_lu r2;
     (nanos2, r4) \<leftarrow> scan_lu r3;
     Some (secs1, nanos1, secs2, nanos2)
   }"

text \<open>The part of \<open>serve1_nat\<close> after the \<open>fork\<close>; \<open>sleep\<close> is the result of \<open>clock_nanosleep\<close>.\<close>

definition child :: "(timespec \<Rightarrow> int) \<Rightarrow> timespec \<Rightarrow> timespec \<Rightarrow> served" where
  "child sleep ts1 ts2 =
     (if sleep ts1 = - 1 then Child [Sleep ts1] 1
      else if sleep ts2 = - 1 then Child [Sleep ts1, Send ''B\<newline>'', Sleep ts2] 2
      else Child [Sleep ts1, Send ''B\<newline>'', Sleep ts2, Send ''A\<newline>''] 0)"

text \<open>
  \<open>packet\<close> is what \<open>recvfrom\<close> received, \<open>None\<close> its failure; 127 bytes fit into the zeroed buffer.
\<close>

definition serve1_nat :: "(timespec \<Rightarrow> int) \<Rightarrow> int \<Rightarrow> string option \<Rightarrow> served" where
  "serve1_nat sleep fork packet =
     (case packet of None \<Rightarrow> Ignored
      | Some d \<Rightarrow>
        (case scan_request (c_str (take 127 d)) of None \<Rightarrow> Ignored
         | Some (secs1, nanos1, secs2, nanos2) \<Rightarrow>
             if secs1 + secs2 > 600 \<or> nanos1 \<ge> 1000 * 1000 * 1000 \<or> nanos2 \<ge> 1000 * 1000 * 1000 then Ignored
             else if fork \<noteq> 0 then Forked
             else child sleep \<lparr>tv_sec = sint secs1, tv_nsec = sint nanos1\<rparr>
               \<lparr>tv_sec = sint secs2, tv_nsec = sint nanos2\<rparr>))"

section \<open>The prober\<close>

text \<open>The request, and the receive timeout in seconds.\<close>

definition try_message :: "int \<Rightarrow> string" where
  "try_message seconds = ''0 0 '' @ show_int seconds @ '' 0\<newline>''"

definition try_timeout :: "int \<Rightarrow> int" where
  "try_timeout seconds = s32 (seconds + 2)"

text \<open>One \<open>recv\<close> of a reply: \<open>None\<close> is an error or a timeout.\<close>

definition reply_is :: "char \<Rightarrow> string option \<Rightarrow> bool" where
  "reply_is c r = (case r of None \<Rightarrow> False | Some [] \<Rightarrow> False | Some (x # xs) \<Rightarrow> x = c)"

definition try_once :: "bool \<Rightarrow> string option \<Rightarrow> string option \<Rightarrow> int" where
  "try_once sent reply1 reply2 =
     (if \<not> sent then - 1
      else if \<not> reply_is CHR ''B'' reply1 then - 1
      else if \<not> reply_is CHR ''A'' reply2 then - 1
      else 0)"

text \<open>The two loops of \<open>one_experiment\<close>; \<open>Inl\<close> is the early return, \<open>Inr\<close> the break.\<close>

partial_function (option) phase1 ::
    "('s \<Rightarrow> int \<Rightarrow> 's \<times> int) \<Rightarrow> 's \<Rightarrow> int \<Rightarrow> int \<Rightarrow> ('s \<times> (int + int)) option" where
  "phase1 tr s max_to num_fails =
     (case tr s max_to of (s1, r) \<Rightarrow>
        if r = 0 then
          (if max_to \<ge> 512 then Some (s1, Inl max_to) else phase1 tr s1 (s32 (max_to * 2)) 0)
        else if num_fails + 1 = 3 then Some (s1, Inr max_to)
        else phase1 tr s1 max_to (num_fails + 1))"

partial_function (option) phase2 ::
    "('s \<Rightarrow> int \<Rightarrow> 's \<times> int) \<Rightarrow> 's \<Rightarrow> int \<Rightarrow> int \<Rightarrow> ('s \<times> int) option" where
  "phase2 tr s min_to max_to =
     (if max_to - min_to \<le> 2 then Some (s, min_to)
      else let candidate = (min_to + max_to) sdiv 2 in
        (case tr s candidate of (s1, r) \<Rightarrow>
           if r = 0 then phase2 tr s1 candidate max_to else phase2 tr s1 min_to candidate))"

declare phase1.simps [code] phase2.simps [code]

definition one_experiment :: "('s \<Rightarrow> int \<Rightarrow> 's \<times> int) \<Rightarrow> 's \<Rightarrow> ('s \<times> int) option" where
  "one_experiment tr s = do {
     (s1, x) \<leftarrow> phase1 tr s 1 0;
     (case x of
        Inl max_to \<Rightarrow> Some (s1, max_to)
      | Inr max_to \<Rightarrow> if max_to = 1 then Some (s1, 0) else phase2 tr s1 (max_to sdiv 2) max_to)
   }"

definition numcmp :: "int \<Rightarrow> int \<Rightarrow> int" where
  "numcmp p1 p2 = s32 (p1 - p2)"

text \<open>The library's \<open>qsort\<close> with a comparison function.\<close>

fun qinsert :: "('a \<Rightarrow> 'a \<Rightarrow> int) \<Rightarrow> 'a \<Rightarrow> 'a list \<Rightarrow> 'a list" where
  "qinsert cmp x [] = [x]"
| "qinsert cmp x (y # ys) = (if cmp x y \<le> 0 then x # y # ys else y # qinsert cmp x ys)"

definition qsort :: "('a \<Rightarrow> 'a \<Rightarrow> int) \<Rightarrow> 'a list \<Rightarrow> 'a list" where
  "qsort cmp xs = foldr (qinsert cmp) xs []"

text \<open>The number that is printed.\<close>

definition probe_median :: "('s \<Rightarrow> int \<Rightarrow> 's \<times> int) \<Rightarrow> 's \<Rightarrow> ('s \<times> int) option" where
  "probe_median tr s = do {
     (s1, e0) \<leftarrow> one_experiment tr s;
     (s2, e1) \<leftarrow> one_experiment tr s1;
     (s3, e2) \<leftarrow> one_experiment tr s2;
     Some (s3, qsort numcmp [e0, e1, e2] ! 1)
   }"

section \<open>The program\<close>

record nat_env =
  gai1 :: int
  gai1_addrs :: nat
  gai2 :: int
  gai2_addrs :: nat
  socket_ret :: int
  bind_ret :: int
  connect_ret :: int

text \<open>
  How \<open>main\<close> goes on: it exits, serves for ever, or prints the result of \<open>probe\<close> and exits. With four
  arguments the source also loads \<open>argv[5]\<close>, one element past the terminating null pointer; the value is
  not used, and what the load does is not modelled.
\<close>

datatype nat_outcome = Exits int | Serves | Probes

definition nat_main :: "string list \<Rightarrow> nat_env \<Rightarrow> nat_outcome" where
  "nat_main argv env =
     (let argc = length argv; cmd = argv ! 1 in
      if argc \<noteq> 4 \<and> argc \<noteq> 6 then Exits 1
      else if cmd \<noteq> ''serve'' \<and> cmd \<noteq> ''probe'' then Exits 1
      else if cmd = ''probe'' \<and> argc \<noteq> 6 then Exits 1
      else if gai1 env \<noteq> 0 then Exits 4
      else if gai1_addrs env = 0 then Exits 6
      else if cmd = ''probe'' \<and> gai2 env \<noteq> 0 then Exits 13
      else if cmd = ''probe'' \<and> gai2_addrs env = 0 then Exits 15
      else if socket_ret env = - 1 then Exits 7
      else if bind_ret env \<noteq> 0 then Exits 5
      else if cmd = ''serve'' then Serves
      else if connect_ret env = - 1 then Exits 6
      else Probes)"

section \<open>The searches end\<close>

text \<open>
  An environment decides every attempt from all the attempts before it: \<open>logging env\<close> is the
  attempt whose state is the log of timeouts and results.
\<close>

type_synonym log = "(int \<times> int) list"

definition logging :: "(log \<Rightarrow> int \<Rightarrow> int) \<Rightarrow> log \<Rightarrow> int \<Rightarrow> log \<times> int" where
  "logging env l t = (let r = env l t in (l @ [(t, r)], r))"

text \<open>How doubling ends: at 512, or with a power of two that failed after one that did not.\<close>

definition phase1_result :: "log \<Rightarrow> int + int \<Rightarrow> bool" where
  "phase1_result l x \<longleftrightarrow> x = Inl 512 \<and> (512, 0) \<in> set l \<or>
     (\<exists>j e. j \<le> 9 \<and> x = Inr (2 ^ j) \<and> (2 ^ j, e) \<in> set l \<and> e \<noteq> 0 \<and>
       (0 < j \<longrightarrow> (2 ^ (j - 1), 0) \<in> set l))"

lemma phase1_ends:
  assumes "k \<le> 9" "f \<le> 2" "0 < k \<longrightarrow> (2 ^ (k - 1), 0) \<in> set l"
  shows "\<exists>l' x. phase1 (logging env) l (2 ^ k) (int f) = Some (l', x) \<and> set l \<subseteq> set l' \<and>
    length l' + f \<le> length l + 3 * (10 - k) \<and> phase1_result l' x"
  using assms
proof (induction "3 * (10 - k) - f" arbitrary: k f l rule: less_induct)
  case less
  define r where "r = env l (2 ^ k)"
  let ?l = "l @ [(2 ^ k, r)]"
  have step: "phase1 (logging env) l (2 ^ k) (int f) =
      (if r = 0 then
         if (2::int) ^ k \<ge> 512 then Some (?l, Inl (2 ^ k)) else phase1 (logging env) ?l (s32 (2 ^ k * 2)) 0
       else if int f + 1 = 3 then Some (?l, Inr (2 ^ k)) else phase1 (logging env) ?l (2 ^ k) (int f + 1))"
    by (subst phase1.simps) (simp add: logging_def r_def Let_def)
  have goon: ?case if "phase1 (logging env) l (2 ^ k) (int f) = phase1 (logging env) ?l (2 ^ k') (int f')"
    "3 * (10 - k') - f' < 3 * (10 - k) - f" "k' \<le> 9" "f' \<le> 2" "0 < k' \<longrightarrow> (2 ^ (k' - 1), 0) \<in> set ?l"
    for k' f'
    using less.hyps [OF that(2-5)] that(1,2) less.prems(1,2) by fastforce
  consider "r = 0" "k = 9" | "r = 0" "k < 9" | "r \<noteq> 0" "f = 2" | "r \<noteq> 0" "f < 2"
    using less.prems by linarith
  then show ?case
  proof cases
    case 1
    then show ?thesis using less.prems unfolding step by (auto simp: phase1_result_def)
  next
    case 2
    have small: "0 \<le> m \<Longrightarrow> m \<le> 2 ^ 8 \<Longrightarrow> in_s32 (m * 2) \<and> \<not> 512 \<le> m" for m :: int
      by (simp add: in_s32_def)
    have "(2::int) ^ k \<le> 2 ^ 8"
      using 2 by (intro power_increasing) auto
    from small [OF zero_le_power this]
    have "phase1 (logging env) l (2 ^ k) (int f) = phase1 (logging env) ?l (2 ^ Suc k) (int 0)"
      unfolding step using 2 by (simp add: s32_id mult.commute)
    from goon [OF this] show ?thesis
      using 2 less.prems(2) by simp
  next
    case 3
    then have "phase1 (logging env) l (2 ^ k) (int f) = Some (?l, Inr (2 ^ k))"
      unfolding step by simp
    moreover have "phase1_result ?l (Inr (2 ^ k))"
      unfolding phase1_result_def using 3 less.prems by (intro disjI2 exI [of _ k] exI [of _ r]) simp
    ultimately show ?thesis
      using 3 less.prems(1) by auto
  next
    case 4
    then have "phase1 (logging env) l (2 ^ k) (int f) = phase1 (logging env) ?l (2 ^ k) (int (Suc f))"
      unfolding step by (simp add: add.commute)
    from goon [OF this] show ?thesis
      using 4 less.prems by auto
  qed
qed

lemma phase2_ends:
  assumes "0 < j" "max_to = min_to + 2 ^ j" "0 \<le> min_to" "(min_to, 0) \<in> set l" "(max_to, e) \<in> set l" "e \<noteq> 0"
  shows "\<exists>l' r. phase2 (logging env) l min_to max_to = Some (l', r) \<and> set l \<subseteq> set l' \<and>
    length l' + 1 \<le> length l + j \<and> min_to \<le> r \<and> r + 2 \<le> max_to \<and> (r, 0) \<in> set l' \<and>
    (\<exists>e. e \<noteq> 0 \<and> (r + 2, e) \<in> set l')"
  using assms
proof (induction j arbitrary: l min_to max_to e)
  case 0
  then show ?case by simp
next
  case (Suc j)
  show ?case
  proof (cases "j = 0")
    case True
    with Suc.prems show ?thesis
      by (subst phase2.simps) auto
  next
    case False
    let ?mid = "min_to + 2 ^ j"
    define r where "r = env l ?mid"
    let ?l = "l @ [(?mid, r)]"
    have "(2::int) ^ 1 \<le> 2 ^ j"
      using False by (intro power_increasing) auto
    moreover have "(min_to + max_to) sdiv 2 = ?mid"
      using Suc.prems by (simp add: sdiv_nonneg)
    ultimately have step: "phase2 (logging env) l min_to max_to =
        (if r = 0 then phase2 (logging env) ?l ?mid max_to else phase2 (logging env) ?l min_to ?mid)"
      using Suc.prems(2) by (subst phase2.simps) (simp add: logging_def r_def Let_def)
    show ?thesis
    proof (cases "r = 0")
      case True
      with Suc.IH [of max_to ?mid ?l e] Suc.prems False show ?thesis
        unfolding step by fastforce
    next
      case r: False
      with Suc.IH [of ?mid min_to ?l r] Suc.prems False show ?thesis
        unfolding step by fastforce
    qed
  qed
qed

lemma experiment_ends:
  "\<exists>l' r. one_experiment (logging env) l = Some (l', r) \<and> set l \<subseteq> set l' \<and> length l' \<le> length l + 38 \<and>
    0 \<le> r \<and> r \<le> 512 \<and> (0 < r \<longrightarrow> (r, 0) \<in> set l') \<and>
    (r < 512 \<longrightarrow> (\<exists>d e. 1 \<le> d \<and> d \<le> 2 \<and> e \<noteq> 0 \<and> r + d \<le> 512 \<and> (r + d, e) \<in> set l'))"
proof -
  obtain l1 x where p1: "phase1 (logging env) l 1 0 = Some (l1, x)" "set l \<subseteq> set l1" "length l1 \<le> length l + 30"
    and x: "phase1_result l1 x"
    using phase1_ends [of 0 0 l env] by auto
  from x [unfolded phase1_result_def] show ?thesis
  proof (elim disjE conjE exE)
    assume "x = Inl 512" "(512, 0) \<in> set l1"
    with p1 show ?thesis by (simp add: one_experiment_def)
  next
    fix j e assume j: "j \<le> 9" "x = Inr (2 ^ j)" "(2 ^ j, e) \<in> set l1" "e \<noteq> 0"
      "0 < j \<longrightarrow> (2 ^ (j - 1), 0) \<in> set l1"
    show ?thesis
    proof (cases "j < 2")
      case True
      then consider "j = 0" | "j = 1" by linarith
      then show ?thesis
      proof cases
        case 1
        with p1 j show ?thesis by (force simp: one_experiment_def)
      next
        case 2
        have "phase2 (logging env) l1 (2 sdiv 2) 2 = Some (l1, 1)"
          by (subst phase2.simps) (simp add: sdiv_nonneg)
        with 2 p1 j show ?thesis
          by (force simp: one_experiment_def)
      qed
    next
      case False
      then obtain i where i: "j = Suc i" "0 < i"
        by (cases j) auto
      have half: "(2::int) ^ j sdiv 2 = 2 ^ i" "(2::int) ^ j = 2 ^ i + 2 ^ i" "(2::int) ^ j \<noteq> 1"
        using i one_less_power [of "2::int" j] by (simp_all add: sdiv_nonneg)
      have top: "(2::int) ^ j \<le> 2 ^ 9" "(0::int) \<le> 2 ^ i"
        using power_increasing [OF j(1), of "2::int"] by simp_all
      moreover obtain l2 r where p2: "phase2 (logging env) l1 (2 ^ i) (2 ^ j) = Some (l2, r)" "set l1 \<subseteq> set l2"
        "length l2 + 1 \<le> length l1 + i" "2 ^ i \<le> r" "r + 2 \<le> 2 ^ j" "(r, 0) \<in> set l2"
        and failed: "\<exists>e. e \<noteq> 0 \<and> (r + 2, e) \<in> set l2"
        using phase2_ends [of i "2 ^ j" "2 ^ i" l1 e env] i half j by auto
      moreover have "one_experiment (logging env) l = Some (l2, r)"
        using p1(1) p2(1) j(2) half(1,3) by (simp add: one_experiment_def)
      moreover obtain e' where "e' \<noteq> 0" "(r + 2, e') \<in> set l2" "r + 2 \<le> 512"
        using failed p2(5) top(1) by force
      then have "\<exists>d e. 1 \<le> d \<and> d \<le> 2 \<and> e \<noteq> 0 \<and> r + d \<le> 512 \<and> (r + d, e) \<in> set l2"
        by (intro exI [where x = "2 :: int"] exI [of _ e']) simp
      ultimately show ?thesis
        using top p1(2,3) j(1) i(1) by (intro exI [of _ l2] exI [of _ r]) auto
    qed
  qed
qed

text \<open>Every entry of the log is an answer of the environment.\<close>

definition answers :: "(log \<Rightarrow> int \<Rightarrow> int) \<Rightarrow> log \<Rightarrow> bool" where
  "answers env l \<longleftrightarrow> (\<forall>(t, e) \<in> set l. \<exists>l0. e = env l0 t)"

lemma logging_answers: "logging env l t = (l', e) \<Longrightarrow> answers env l \<Longrightarrow> answers env l'"
  by (auto simp: logging_def answers_def Let_def)

lemma phase1_answers:
  "phase1 tr l m f = Some y \<Longrightarrow> tr = logging env \<longrightarrow> answers env l \<longrightarrow> answers env (fst y)"
  by (rule phase1.raw_induct [where P = "\<lambda>tr l m f y. tr = logging env \<longrightarrow> answers env l \<longrightarrow> answers env (fst y)"])
    (auto split: prod.splits if_splits dest: logging_answers)

lemma phase2_answers:
  "phase2 tr l a b = Some y \<Longrightarrow> tr = logging env \<longrightarrow> answers env l \<longrightarrow> answers env (fst y)"
  by (rule phase2.raw_induct [where P = "\<lambda>tr l a b y. tr = logging env \<longrightarrow> answers env l \<longrightarrow> answers env (fst y)"])
    (auto simp: Let_def split: prod.splits if_splits dest: logging_answers)

lemma experiment_answers:
  "one_experiment (logging env) l = Some (l', r) \<Longrightarrow> answers env l \<Longrightarrow> answers env l'"
  by (auto simp: one_experiment_def split: Option.bind_splits sum.splits if_splits
      dest!: phase1_answers phase2_answers)

section \<open>Sorting\<close>

lemma mset_qinsert: "mset (qinsert cmp x xs) = add_mset x (mset xs)"
  by (induction xs) auto

lemma mset_qsort: "mset (qsort cmp xs) = mset xs"
  by (induction xs) (simp_all add: qsort_def mset_qinsert)

lemma set_qinsert: "set (qinsert cmp x xs) = insert x (set xs)"
  by (induction xs) auto

lemma numcmp_le: "0 \<le> a \<Longrightarrow> 0 \<le> b \<Longrightarrow> a < 2 ^ 31 \<Longrightarrow> b < 2 ^ 31 \<Longrightarrow> numcmp a b \<le> 0 \<longleftrightarrow> a \<le> b"
  by (simp add: numcmp_def s32_id in_s32_def)

lemma sorted_qinsert:
  "sorted xs \<Longrightarrow> (\<And>y. y \<in> insert x (set xs) \<Longrightarrow> 0 \<le> y \<and> y < 2 ^ 31) \<Longrightarrow> sorted (qinsert numcmp x xs)"
proof (induction xs)
  case (Cons y ys)
  then have "numcmp x y \<le> 0 \<longleftrightarrow> x \<le> y"
    by (intro numcmp_le) auto
  with Cons show ?case
    by (auto simp: set_qinsert)
qed simp

lemma sorted_qsort:
  "(\<And>x. x \<in> set xs \<Longrightarrow> 0 \<le> x \<and> x < 2 ^ 31) \<Longrightarrow> sorted (qsort numcmp xs)"
proof (induction xs)
  case (Cons x xs)
  have "set (qsort numcmp xs) = set xs"
    by (metis mset_qsort set_mset_mset)
  with Cons show ?case
    by (auto simp: qsort_def intro!: sorted_qinsert)
qed (simp add: qsort_def)

lemma sorted_middle:
  assumes "sorted [x, y, z]" "mset [x, y, z] = mset [a, b, c :: int]"
  shows "y \<in> {a, b, c}" "2 \<le> length (filter (\<lambda>v. v \<le> y) [a, b, c])" "2 \<le> length (filter (\<lambda>v. y \<le> v) [a, b, c])"
proof -
  show "y \<in> {a, b, c}"
    using assms(2) by (metis list.set_intros(1,2) set_mset_mset list.set(1,2) set_ConsD insertCI)
  have same: "length (filter P [a, b, c]) = length (filter P [x, y, z])" for P
    using assms(2) by (metis mset_filter size_mset)
  show "2 \<le> length (filter (\<lambda>v. v \<le> y) [a, b, c])" "2 \<le> length (filter (\<lambda>v. y \<le> v) [a, b, c])"
    unfolding same using assms(1) by simp_all
qed

text \<open>
  C12: for any behaviour of the network (an answer to every attempt, decided from all attempts so
  far) an experiment ends after at most 38 attempts with a result from 0 to 512; unless it is 0 an
  attempt with that idle time succeeded, and unless it is 512 an attempt with one or two
  seconds more failed.
\<close>
theorem experiment_brackets:
  "\<exists>l r. one_experiment (logging env) [] = Some (l, r) \<and> length l \<le> 38 \<and> 0 \<le> r \<and> r \<le> 512 \<and>
    (0 < r \<longrightarrow> (r, 0) \<in> set l) \<and>
    (r < 512 \<longrightarrow> (\<exists>d e. 1 \<le> d \<and> d \<le> 2 \<and> e \<noteq> 0 \<and> r + d \<le> 512 \<and> (r + d, e) \<in> set l))"
  using experiment_ends [of env "[]"] by simp

theorem experiment_brackets_witness:
  "\<exists>l r. one_experiment (logging (\<lambda>l t. if t \<le> 37 then 0 else - 1)) [] = Some (l, r) \<and> 0 \<le> r \<and> r \<le> 512"
  using experiment_brackets [of "\<lambda>l t. if t \<le> 37 then 0 else - 1"] by blast

lemma probe_ends:
  obtains l1 l2 l3 e0 e1 e2 where
    "one_experiment (logging env) l = Some (l1, e0)" "one_experiment (logging env) l1 = Some (l2, e1)"
    "one_experiment (logging env) l2 = Some (l3, e2)"
    "probe_median (logging env) l = Some (l3, qsort numcmp [e0, e1, e2] ! 1)"
    "length l3 \<le> length l + 114"
    "\<And>x. x \<in> {e0, e1, e2} \<Longrightarrow> 0 \<le> x \<and> x \<le> 512"
proof -
  obtain l1 e0 where 1: "one_experiment (logging env) l = Some (l1, e0)" "length l1 \<le> length l + 38" "0 \<le> e0" "e0 \<le> 512"
    using experiment_ends by blast
  obtain l2 e1 where 2: "one_experiment (logging env) l1 = Some (l2, e1)" "length l2 \<le> length l1 + 38" "0 \<le> e1" "e1 \<le> 512"
    using experiment_ends by blast
  obtain l3 e2 where 3: "one_experiment (logging env) l2 = Some (l3, e2)" "length l3 \<le> length l2 + 38" "0 \<le> e2" "e2 \<le> 512"
    using experiment_ends by blast
  show thesis
    using that [OF 1(1) 2(1) 3(1)] 1 2 3 by (auto simp: probe_median_def)
qed

lemma median_of_three:
  assumes "\<And>x. x \<in> {a, b, c} \<Longrightarrow> 0 \<le> x \<and> x \<le> 512"
  shows "qsort numcmp [a, b, c] ! 1 \<in> {a, b, c}"
    "2 \<le> length (filter (\<lambda>v. v \<le> qsort numcmp [a, b, c] ! 1) [a, b, c])"
    "2 \<le> length (filter (\<lambda>v. qsort numcmp [a, b, c] ! 1 \<le> v) [a, b, c])"
proof -
  have m: "mset (qsort numcmp [a, b, c]) = mset [a, b, c]"
    by (rule mset_qsort)
  then have "length (qsort numcmp [a, b, c]) = 3"
    by (metis One_nat_def Suc_1 length_Cons list.size(3) numeral_3_eq_3 size_mset)
  then obtain x y z where q: "qsort numcmp [a, b, c] = [x, y, z]"
    by (auto simp: numeral_3_eq_3 length_Suc_conv)
  have "sorted [x, y, z]"
    unfolding q [symmetric] using assms by (intro sorted_qsort) fastforce
  from sorted_middle [OF this m [unfolded q]]
  show "qsort numcmp [a, b, c] ! 1 \<in> {a, b, c}"
    "2 \<le> length (filter (\<lambda>v. v \<le> qsort numcmp [a, b, c] ! 1) [a, b, c])"
    "2 \<le> length (filter (\<lambda>v. qsort numcmp [a, b, c] ! 1 \<le> v) [a, b, c])"
    by (simp_all add: q)
qed

text \<open>
  C28: \<open>probe\<close> runs three experiments one after the other and prints their median: one of the
  results, with at least two of the three not above it and two not below it. It ends on every
  network, after at most 114 attempts.
\<close>
theorem probe_prints_median:
  "\<exists>l1 l2 l3 e0 e1 e2 m. one_experiment (logging env) [] = Some (l1, e0) \<and>
    one_experiment (logging env) l1 = Some (l2, e1) \<and> one_experiment (logging env) l2 = Some (l3, e2) \<and>
    probe_median (logging env) [] = Some (l3, m) \<and> length l3 \<le> 114 \<and> m \<in> {e0, e1, e2} \<and>
    2 \<le> length (filter (\<lambda>v. v \<le> m) [e0, e1, e2]) \<and> 2 \<le> length (filter (\<lambda>v. m \<le> v) [e0, e1, e2])"
proof -
  obtain l1 l2 l3 e0 e1 e2 where p:
    "one_experiment (logging env) [] = Some (l1, e0)" "one_experiment (logging env) l1 = Some (l2, e1)"
    "one_experiment (logging env) l2 = Some (l3, e2)"
    "probe_median (logging env) [] = Some (l3, qsort numcmp [e0, e1, e2] ! 1)" "length l3 \<le> 114"
    "\<And>x. x \<in> {e0, e1, e2} \<Longrightarrow> 0 \<le> x \<and> x \<le> 512"
    by (rule probe_ends [of env "[]"]) (rule that, simp_all)
  show ?thesis
    using p(1-5) median_of_three [OF p(6)] by auto
qed

section \<open>A NAT between prober and server\<close>

text \<open>
  What comes through a NAT that forgets a mapping \<open>hold\<close> nanoseconds after the last packet, of the
  actions of a server's child: pairs of the time since the packet before and the text. \<open>idle\<close> is
  the time since the last packet that came through.
\<close>

fun through_nat :: "int \<Rightarrow> int \<Rightarrow> child_action list \<Rightarrow> (int \<times> string) list" where
  "through_nat hold idle [] = []"
| "through_nat hold idle (Sleep ts # as) = through_nat hold (idle + nanos ts) as"
| "through_nat hold idle (Send m # as) =
     (if idle \<le> hold then (idle, m) # through_nat hold 0 as else through_nat hold idle as)"

text \<open>One \<open>recv\<close> with the receive timeout in seconds.\<close>

definition recv_reply :: "int \<Rightarrow> (int \<times> string) list \<Rightarrow> string option" where
  "recv_reply timeout rs = (case rs of [] \<Rightarrow> None
     | (t, m) # _ \<Rightarrow> if t \<le> timeout * 1000000000 then Some m else None)"

text \<open>An attempt of the prober against the server's \<open>serve1_nat\<close>, through the NAT.\<close>

definition nat_attempt :: "int \<Rightarrow> int \<Rightarrow> int" where
  "nat_attempt hold seconds =
     (case serve1_nat (\<lambda>_. 0) 0 (Some (try_message seconds)) of
        Child acts _ \<Rightarrow>
          (let rs = through_nat hold 0 acts
           in try_once True (recv_reply (try_timeout seconds) rs) (recv_reply (try_timeout seconds) (tl rs)))
      | _ \<Rightarrow> try_once True None None)"

lemma scan_request_message:
  assumes "0 \<le> t" "t < 10 ^ 9"
  shows "scan_request (c_str (take 127 (try_message t))) = Some (0, 0, word_of_int t, 0)"
proof -
  have 0: "show_nat 0 = ''0''"
    by code_simp
  have msg: "try_message t = show_nat 0 @ '' '' @ show_nat 0 @ '' '' @ show_nat (nat t) @ '' '' @ show_nat 0 @ ''\<newline>''"
    using assms by (simp add: try_message_def show_int_def 0)
  have "length (show_nat (nat t)) \<le> 9"
    using assms by (intro length_show_nat) (simp_all add: nat_less_iff)
  then have "take 127 (try_message t) = try_message t"
    by (simp add: msg 0)
  moreover have "c_str (try_message t) = try_message t"
    by (simp add: msg 0 c_str_show_nat)
  ultimately have "c_str (take 127 (try_message t)) = try_message t"
    by simp
  moreover have "nat t < 2 ^ 64"
    using assms by (simp add: nat_less_iff)
  moreover have "\<not> is_digit CHR '' ''" "\<not> is_digit CHR ''\<newline>''"
    by (simp_all add: is_digit_def)
  moreover have "of_nat (nat t) = (word_of_int t :: u64)"
    using assms(1) by (metis nat_0_le of_int_of_nat_eq)
  ultimately show ?thesis
    by (simp add: msg scan_request_def scan_lu_show_nat scan_lu_space)
qed

lemma request_parsed:
  assumes "0 \<le> t" "t \<le> 600" "\<And>ts. sleep ts \<noteq> - 1"
  shows "serve1_nat sleep 0 (Some (try_message t)) =
    Child [Sleep ts_zero, Send ''B\<newline>'', Sleep \<lparr>tv_sec = t, tv_nsec = 0\<rparr>, Send ''A\<newline>''] 0"
proof -
  have "uint (word_of_int t :: u64) = t" "sint (word_of_int t :: u64) = t"
    using assms(1,2) by (simp_all add: uint_word_of_int sint_uint signed_take_bit_int_eq_self)
  moreover have "\<not> (word_of_int t :: u64) > 600"
    using assms(1,2) calculation(1) by (simp add: word_less_def)
  ultimately show ?thesis
    using assms scan_request_message [of t] by (simp add: serve1_nat_def child_def ts_zero_def)
qed

text \<open>
  C29: the server obeys the prober: it parses the request for an idle time of \<open>t\<close> seconds as it
  was printed, and its child answers "B" at once and "A" after exactly \<open>t\<close> seconds.
\<close>
theorem request_roundtrip:
  assumes "0 \<le> t" "t \<le> 600" "\<And>ts. sleep ts \<noteq> - 1"
  shows "serve1_nat sleep 0 (Some (try_message t)) =
    Child [Sleep ts_zero, Send ''B\<newline>'', Sleep \<lparr>tv_sec = t, tv_nsec = 0\<rparr>, Send ''A\<newline>''] 0"
  by (rule request_parsed [OF assms])

theorem request_roundtrip_witness:
  "serve1_nat (\<lambda>_. 0) 0 (Some (try_message 512)) =
    Child [Sleep ts_zero, Send ''B\<newline>'', Sleep \<lparr>tv_sec = 512, tv_nsec = 0\<rparr>, Send ''A\<newline>''] 0"
  by (rule request_roundtrip) simp_all

text \<open>
  What a search relies on: an attempt succeeds exactly for the idle times up to a threshold.
\<close>

locale idle_threshold =
  fixes env :: "log \<Rightarrow> int \<Rightarrow> int" and T :: int
  assumes attempt_ok: "1 \<le> t \<Longrightarrow> t \<le> 600 \<Longrightarrow> env l t = 0 \<longleftrightarrow> t \<le> T"
begin

definition fitting :: "int \<Rightarrow> bool" where
  "fitting r \<longleftrightarrow> 0 \<le> r \<and> r \<le> 512 \<and> (if T < 1 then r = 0 else if 512 \<le> T then r = 512 else r \<le> T \<and> T < r + 2)"

lemma experiment_fits:
  assumes "one_experiment (logging env) l = Some (l', r)" "answers env l"
  shows "fitting r" "answers env l'"
proof -
  show a: "answers env l'"
    using experiment_answers assms by blast
  have b: "0 \<le> r" "r \<le> 512" "0 < r \<Longrightarrow> (r, 0) \<in> set l'"
    and e: "r < 512 \<Longrightarrow> \<exists>d e. 1 \<le> d \<and> d \<le> 2 \<and> e \<noteq> 0 \<and> r + d \<le> 512 \<and> (r + d, e) \<in> set l'"
    using experiment_ends [of env l] assms(1) by auto
  have up: "r \<le> T" if pos: "0 < r"
  proof -
    obtain l0 where "env l0 r = 0"
      using a b(3) [OF pos] by (fastforce simp: answers_def)
    then show ?thesis
      using attempt_ok [of r l0] b(2) pos by simp
  qed
  have down: "T < r + 2 \<and> T < 512" if small: "r < 512"
  proof -
    obtain d e where d: "1 \<le> d" "d \<le> 2" "e \<noteq> 0" "r + d \<le> 512" "(r + d, e) \<in> set l'"
      using e [OF small] by blast
    then obtain l0 where "env l0 (r + d) \<noteq> 0"
      using a by (fastforce simp: answers_def)
    then show ?thesis
      using attempt_ok [of "r + d" l0] d b(1) small by auto
  qed
  show "fitting r"
    unfolding fitting_def using b(1,2) up down by (cases "r < 512"; cases "0 < r") auto
qed

text \<open>All three experiments, and so their median.\<close>

lemma median_fits: "\<exists>l m. probe_median (logging env) [] = Some (l, m) \<and> fitting m"
proof -
  obtain l1 l2 l3 e0 e1 e2 where p:
    "one_experiment (logging env) [] = Some (l1, e0)" "one_experiment (logging env) l1 = Some (l2, e1)"
    "one_experiment (logging env) l2 = Some (l3, e2)"
    "probe_median (logging env) [] = Some (l3, qsort numcmp [e0, e1, e2] ! 1)"
    and b: "\<And>x. x \<in> {e0, e1, e2} \<Longrightarrow> 0 \<le> x \<and> x \<le> 512"
    by (rule probe_ends [of env "[]"]) (rule that, simp_all)
  have "answers env []"
    by (simp add: answers_def)
  then have "fitting e0" "fitting e1" "fitting e2"
    using p(1-3) experiment_fits by blast+
  moreover have "qsort numcmp [e0, e1, e2] ! 1 \<in> {e0, e1, e2}"
    using b by (rule median_of_three(1))
  ultimately show ?thesis
    using p(4) by auto
qed

end

text \<open>The NAT of the model is such an environment: its threshold is the holding time.\<close>

lemma nat_attempt_ok:
  assumes "1 \<le> t" "t \<le> 600"
  shows "nat_attempt hold t = 0 \<longleftrightarrow> t \<le> hold div 1000000000"
proof -
  have "try_timeout t = t + 2"
    using assms by (simp add: try_timeout_def s32_id in_s32_def)
  moreover have "t * 1000000000 \<le> hold \<longleftrightarrow> t \<le> hold div 1000000000"
    by linarith
  ultimately show ?thesis
    using assms request_parsed [of t "\<lambda>_. 0"]
    by (auto simp: nat_attempt_def recv_reply_def nanos_def ts_zero_def TIMING_GIGA_def try_once_def
        reply_is_def Let_def)
qed

interpretation nat_box: idle_threshold "\<lambda>_. nat_attempt hold" "hold div 1000000000" for hold
  by unfold_locales (simp add: nat_attempt_ok)

text \<open>
  C11: against its own server, through a NAT that forgets an idle mapping after \<open>hold\<close> nanoseconds,
  the prober prints the holding time in whole seconds, or one second less; 0 if it is below a
  second and 512 if it is longer than that.
\<close>
theorem measured_holding_time:
  "\<exists>l m. probe_median (logging (\<lambda>_. nat_attempt hold)) [] = Some (l, m) \<and> 0 \<le> m \<and> m \<le> 512 \<and>
    (let T = hold div 1000000000 in if T < 1 then m = 0 else if 512 \<le> T then m = 512 else m \<le> T \<and> T < m + 2)"
  using nat_box.median_fits [of hold] by (auto simp: nat_box.fitting_def Let_def)

text \<open>
  The guard on the sum of the delays is computed modulo \<open>2^64\<close>: a request for more than 292
  billion years passes the limit of 600 seconds, and its child sleeps for that long.
\<close>
theorem server_limit_bypassed:
  "serve1_nat (\<lambda>_. 0) 0 (Some ''9223372036854775807 0 9223372036854775809 0'') =
     Child [Sleep \<lparr>tv_sec = 2 ^ 63 - 1, tv_nsec = 0\<rparr>, Send ''B\<newline>'',
       Sleep \<lparr>tv_sec = - (2 ^ 63) + 1, tv_nsec = 0\<rparr>, Send ''A\<newline>''] 0"
  by (simp add: serve1_nat_def scan_request_def scan_lu_def scan_number_def digits_val_def digit_val_def
      is_digit_def is_space_def ulong_of_def child_def c_str_Nil)

text \<open>
  The server never exits in the middle on a failed sleep: \<open>clock_nanosleep\<close> returns a positive
  error number, which is not the \<open>- 1\<close> the code looks for, so both replies are sent at once even
  when the kernel rejects the delays.
\<close>
theorem server_ignores_failed_sleep:
  assumes "\<And>ts. 0 \<le> sleep ts" and "serve1_nat sleep 0 packet \<noteq> Ignored"
  shows "\<exists>ts1 ts2. serve1_nat sleep 0 packet =
    Child [Sleep ts1, Send ''B\<newline>'', Sleep ts2, Send ''A\<newline>''] 0"
proof -
  have "sleep ts \<noteq> - 1" for ts
    using assms(1) [of ts] by linarith
  then show ?thesis
    using assms(2) by (auto simp: serve1_nat_def child_def split: option.splits if_splits)
qed

theorem server_ignores_failed_sleep_witness:
  "\<exists>ts1 ts2. serve1_nat (\<lambda>_. 22) 0 (Some (try_message 3)) =
    Child [Sleep ts1, Send ''B\<newline>'', Sleep ts2, Send ''A\<newline>''] 0"
  by (rule server_ignores_failed_sleep) (simp_all add: request_parsed)

end
