(* ===== verification/File_Pecker.thy ===== *)
theory File_Pecker
  imports Decimal
begin

text \<open>
  \<open>udpfilepecker.c\<close>: writes numbers from UDP packets to inherited file descriptors, and sends an
  empty packet when nothing arrived for a while. One call of \<open>serve1\<close> is one step; what \<open>recv\<close>
  returned is its argument, and its result are the calls it makes. The set-up calls of \<open>main\<close> are
  arguments.
\<close>

section \<open>One step\<close>

text \<open>\<open>recv\<close> failed with \<open>EAGAIN\<close> (the timeout), failed otherwise, or received a packet.\<close>

datatype pecker_recv = Timed_out | Recv_error | Received string

datatype pecker_call = Peck | Write int string

definition fd_allowed :: "int \<Rightarrow> bool" where
  "fd_allowed fdnum \<longleftrightarrow> fdnum = 1 \<or> (fdnum \<ge> 3 \<and> fdnum \<le> 1000)"

text \<open>127 bytes of a packet fit into the zeroed buffer.\<close>

definition serve1_pecker :: "pecker_recv \<Rightarrow> pecker_call list" where
  "serve1_pecker r =
     (case r of
        Timed_out \<Rightarrow> [Peck]
      | Recv_error \<Rightarrow> []
      | Received d \<Rightarrow>
          (case scan_d (c_str (take 127 d)) of None \<Rightarrow> []
           | Some (fdnum, rest) \<Rightarrow>
               (case scan_d rest of None \<Rightarrow> []
                | Some (val, _) \<Rightarrow>
                    if \<not> fd_allowed fdnum then []
                    else
                      let text = show_int val @ ''\<newline>''; len = length text
                      in if len \<le> 0 \<or> len > 128 then [] else [Write fdnum text])))"

section \<open>The program\<close>

record pecker_env =
  pk_gai1 :: int
  pk_addrs1 :: nat
  pk_gai2 :: int
  pk_addrs2 :: nat
  pk_socket :: int
  pk_bind :: int

text \<open>\<open>main\<close> exits, or serves for ever with a receive timeout in seconds.\<close>

datatype pecker_outcome = Pecker_exit int | Pecker_serves int

definition pecker_main :: "string list \<Rightarrow> pecker_env \<Rightarrow> pecker_outcome" where
  "pecker_main argv env =
     (if length argv \<noteq> 6 then Pecker_exit 1
      else if pk_gai1 env \<noteq> 0 then Pecker_exit 4
      else if pk_addrs1 env = 0 then Pecker_exit 6
      else if pk_gai2 env \<noteq> 0 then Pecker_exit 13
      else if pk_addrs2 env = 0 then Pecker_exit 15
      else if pk_socket env = - 1 then Pecker_exit 7
      else if pk_bind env \<noteq> 0 then Pecker_exit 5
      else Pecker_serves (atoi (argv ! 5)))"

definition pecker_run :: "pecker_recv list \<Rightarrow> pecker_call list" where
  "pecker_run rs = concat (map serve1_pecker rs)"

section \<open>What is written where\<close>

lemma length_show_int: "in_s32 v \<Longrightarrow> length (show_int v) \<le> 11"
  using length_show_nat [of "nat (- v)" 10] length_show_nat [of "nat v" 10]
  by (auto simp: show_int_def in_s32_def nat_less_iff)

lemma scan_d_in_range: "scan_d cs = Some (v, r) \<Longrightarrow> in_s32 v"
  by (auto simp: scan_d_def s32_range split: option.splits)

text \<open>
  C16: whatever the network sends, the program only ever writes to descriptor 1 or to one between 3
  and 1000, never to the standard input or error, and what it writes is the decimal form of one
  32-bit number and a newline; the length test never fails. It sends a packet of its own only when
  nothing arrived in time.
\<close>
theorem pecker_calls_safe:
  "list_all (\<lambda>c. case c of Peck \<Rightarrow> True
      | Write fd text \<Rightarrow> (fd = 1 \<or> 3 \<le> fd \<and> fd \<le> 1000) \<and> (\<exists>v. in_s32 v \<and> text = show_int v @ ''\<newline>''))
    (pecker_run rs) \<and>
   length (filter (\<lambda>c. c = Peck) (pecker_run rs)) = length (filter (\<lambda>r. r = Timed_out) rs)"
proof (induction rs)
  case (Cons r rs)
  have "list_all (\<lambda>c. case c of Peck \<Rightarrow> True
      | Write fd text \<Rightarrow> (fd = 1 \<or> 3 \<le> fd \<and> fd \<le> 1000) \<and> (\<exists>v. in_s32 v \<and> text = show_int v @ ''\<newline>''))
      (serve1_pecker r)"
    by (auto simp: serve1_pecker_def fd_allowed_def Let_def dest!: scan_d_in_range
        split: pecker_recv.splits option.splits)
  moreover have "filter (\<lambda>c. c = Peck) (serve1_pecker r) = (if r = Timed_out then [Peck] else [])"
    by (auto simp: serve1_pecker_def Let_def split: pecker_recv.splits option.splits)
  ultimately show ?case
    using Cons by (simp add: pecker_run_def)
qed (simp add: pecker_run_def)

section \<open>Packets as they are meant\<close>

lemma scan_number_show_int:
  assumes "r = [] \<or> \<not> is_digit (hd r)"
  shows "scan_number (show_int v @ r) = Some (v < 0, nat \<bar>v\<bar>, r)"
proof (cases "v < 0")
  case False
  then show ?thesis
    using scan_number_show_nat [OF assms] by (simp add: show_int_def)
next
  case True
  then have "show_int v @ r = CHR ''-'' # show_nat (nat (- v)) @ r"
    by (simp add: show_int_def)
  then show ?thesis
    using True assms by (simp add: scan_number_def is_space_def takeWhile_show_nat dropWhile_show_nat)
qed

lemma scan_d_show_int:
  "in_s32 v \<Longrightarrow> r = [] \<or> \<not> is_digit (hd r) \<Longrightarrow> scan_d (show_int v @ r) = Some (v, r)"
  by (auto simp: scan_d_def scan_number_show_int long_of_def s32_id in_s32_def)

lemma scan_d_space: "scan_d (CHR '' '' # cs) = scan_d cs"
  by (simp add: scan_d_def scan_number_space)

lemma c_str_show_int: "c_str (show_int v @ ds) = show_int v @ c_str ds"
  by (auto simp: show_int_def c_str_show_nat)

text \<open>
  C33: a packet with an allowed descriptor and a number in the range of \<open>int\<close>, printed in decimal,
  makes the program write exactly that number there.
\<close>
theorem pecker_roundtrip:
  assumes "fd = 1 \<or> 3 \<le> fd \<and> fd \<le> 1000" "in_s32 v" "take 127 d = show_int fd @ '' '' @ show_int v"
  shows "serve1_pecker (Received d) = [Write fd (show_int v @ ''\<newline>'')]"
proof -
  have fd: "in_s32 fd"
    using assms(1) by (auto simp: in_s32_def)
  have "c_str (take 127 d) = show_int fd @ CHR '' '' # show_int v"
    using assms(3) c_str_show_int [of v "[]"] by (simp add: c_str_show_int)
  moreover have "\<not> is_digit CHR '' ''"
    by (simp add: is_digit_def)
  ultimately show ?thesis
    using assms(1,2) fd scan_d_show_int [of v "[]"] length_show_int [OF assms(2)]
    by (simp add: serve1_pecker_def scan_d_show_int scan_d_space fd_allowed_def Let_def)
qed

theorem pecker_roundtrip_witness:
  "serve1_pecker (Received ''3 -20'') = [Write 3 (show_int (- 20) @ ''\<newline>'')]"
  by (rule pecker_roundtrip) (simp_all add: in_s32_def, code_simp)

end
