(* ===== verification/Udp_Pair.thy ===== *)
theory Udp_Pair
  imports Decimal
begin

text \<open>
  \<open>udppair.c\<close>: relays datagrams between two UDP ports. The state are the two peer addresses, the
  last sources seen on either socket. One iteration of the loop is \<open>pair_step\<close>; what \<open>select\<close>,
  \<open>recvfrom\<close> and \<open>sendto\<close> returned is its argument, the datagrams and marks it sends are its result.
\<close>

section \<open>Sockets\<close>

datatype side = One | Two

text \<open>\<open>udp_socket\<close>: the results of \<open>socket\<close> and \<open>bind\<close>, and the port number that is bound.\<close>

definition udp_socket :: "int \<Rightarrow> int \<Rightarrow> int \<Rightarrow> int \<times> u16 option" where
  "udp_socket sock bind port =
     (if sock = - 1 then (- 1, None)
      else if bind = - 1 then (- 1, None)
      else (sock, Some (word_of_int port)))"

section \<open>The relay loop\<close>

record 'a peers =
  peer1 :: 'a
  peer2 :: 'a

text \<open>
  A datagram and its source, as \<open>recvfrom\<close> delivers them, and the result of the \<open>sendto\<close> that may
  follow. \<open>None\<close> is a failed \<open>recvfrom\<close>. \<open>buf\<close> has 4096 bytes.
\<close>

type_synonym 'a arrival = "(byte list \<times> 'a) option \<times> int"

datatype 'a pair_call = Sendto side "byte list" 'a | Mark side

text \<open>What \<open>select\<close> returned: an interruption, an error, or which sockets are readable.\<close>

datatype 'a selected = Select_again | Select_error | Ready "'a arrival option" "'a arrival option"

text \<open>The first half of an iteration, for a readable first socket; \<open>Inl\<close> is the exit status.\<close>

definition from_one :: "'a peers \<Rightarrow> 'a arrival \<Rightarrow> int + 'a peers \<times> 'a pair_call list" where
  "from_one p a =
     (case a of (None, _) \<Rightarrow> Inl 4
      | (Some (d, src), sent) \<Rightarrow>
          (let data = take 4096 d; p1 = p\<lparr>peer1 := src\<rparr>
           in if data \<noteq> [] then
                Inr (p1, Sendto Two data (peer2 p1) # (if sent = 0 then [] else [Mark One]))
              else Inr (p1, [])))"

definition from_two :: "'a peers \<Rightarrow> 'a arrival \<Rightarrow> int + 'a peers \<times> 'a pair_call list" where
  "from_two p a =
     (case a of (None, _) \<Rightarrow> Inl 4
      | (Some (d, src), sent) \<Rightarrow>
          (let data = take 4096 d; p1 = p\<lparr>peer2 := src\<rparr>
           in if data \<noteq> [] then
                Inr (p1, Sendto One data (peer1 p1) # (if sent = 0 then [] else [Mark Two]))
              else Inr (p1, [])))"

text \<open>The calls made before an exit are kept: the result is the calls and the state or the status.\<close>

definition pair_step :: "'a peers \<Rightarrow> 'a selected \<Rightarrow> (int + 'a peers) \<times> 'a pair_call list" where
  "pair_step p ev =
     (case ev of
        Select_again \<Rightarrow> (Inr p, [])
      | Select_error \<Rightarrow> (Inl 2, [])
      | Ready a1 a2 \<Rightarrow>
          (case (case a1 of None \<Rightarrow> Inr (p, []) | Some a \<Rightarrow> from_one p a) of
             Inl e \<Rightarrow> (Inl e, [])
           | Inr (p1, out1) \<Rightarrow>
               (case (case a2 of None \<Rightarrow> Inr (p1, []) | Some a \<Rightarrow> from_two p1 a) of
                  Inl e \<Rightarrow> (Inl e, out1)
                | Inr (p2, out2) \<Rightarrow> (Inr p2, out1 @ out2))))"

fun pair_run :: "'a peers \<Rightarrow> 'a selected list \<Rightarrow> (int + 'a peers) \<times> 'a pair_call list" where
  "pair_run p [] = (Inr p, [])"
| "pair_run p (ev # evs) =
     (case pair_step p ev of
        (Inl e, out) \<Rightarrow> (Inl e, out)
      | (Inr p1, out) \<Rightarrow> (case pair_run p1 evs of (r, out2) \<Rightarrow> (r, out @ out2)))"

text \<open>
  \<open>main\<close>: the exit status, or the sockets the loop runs on with the zeroed peers. The results of
  \<open>udp_socket\<close> are not tested.
\<close>

definition pair_main :: "string list \<Rightarrow> (int \<Rightarrow> int \<times> u16 option) \<Rightarrow> (int \<Rightarrow> int \<times> u16 option) \<Rightarrow> int + (int \<times> int)" where
  "pair_main argv socket1 socket2 =
     (if length argv < 3 then Inl 1
      else Inr (fst (socket1 (atoi (argv ! 1))), fst (socket2 (atoi (argv ! 2)))))"

section \<open>What a relay is\<close>

text \<open>
  The specification: a list of datagrams in the order they arrive, each on a side with a source. A
  nonempty datagram goes out on the other side, to the last source seen there.
\<close>

fun arrivals :: "'a selected list \<Rightarrow> (side \<times> byte list \<times> 'a) list" where
  "arrivals [] = []"
| "arrivals (Ready a1 a2 # evs) =
     (case a1 of Some (Some (d, s), _) \<Rightarrow> [(One, take 4096 d, s)] | _ \<Rightarrow> []) @
     (case a2 of Some (Some (d, s), _) \<Rightarrow> [(Two, take 4096 d, s)] | _ \<Rightarrow> []) @ arrivals evs"
| "arrivals (_ # evs) = arrivals evs"

fun other :: "side \<Rightarrow> side" where
  "other One = Two"
| "other Two = One"

fun relay :: "(side \<Rightarrow> 'a) \<Rightarrow> (side \<times> byte list \<times> 'a) list \<Rightarrow> (side \<times> byte list \<times> 'a) list" where
  "relay known [] = []"
| "relay known ((s, d, src) # xs) =
     (if d = [] then [] else [(other s, d, known (other s))]) @ relay (known(s := src)) xs"

fun sent :: "'a pair_call list \<Rightarrow> (side \<times> byte list \<times> 'a) list" where
  "sent [] = []"
| "sent (Sendto s d a # cs) = (s, d, a) # sent cs"
| "sent (Mark s # cs) = sent cs"

definition known_of :: "'a peers \<Rightarrow> side \<Rightarrow> 'a" where
  "known_of p s = (case s of One \<Rightarrow> peer1 p | Two \<Rightarrow> peer2 p)"

lemma sent_append: "sent (xs @ ys) = sent xs @ sent ys"
  by (induction xs rule: sent.induct) auto

lemma known_of_update:
  "known_of (p\<lparr>peer1 := a\<rparr>) = (known_of p)(One := a)" "known_of (p\<lparr>peer2 := a\<rparr>) = (known_of p)(Two := a)"
  by (rule ext; simp add: known_of_def split: side.split)+

lemma relay_append_known:
  "relay known ((s, d, src) # xs) = relay known [(s, d, src)] @ relay (known(s := src)) xs"
  by simp

text \<open>One iteration sends what the specification sends for its one or two datagrams.\<close>

lemma pair_step_relays:
  "pair_step p ev = (Inr p', out) \<Longrightarrow>
     sent out = relay (known_of p) (arrivals [ev]) \<and>
     relay (known_of p) (arrivals (ev # evs)) = sent out @ relay (known_of p') (arrivals evs)"
  by (auto simp: pair_step_def from_one_def from_two_def known_of_update known_of_def sent_append Let_def
      split: selected.splits option.splits sum.splits prod.splits if_splits)

text \<open>
  C15: the relay loop implements the specification. As long as it runs, what it hands to
  \<open>sendto\<close> is what the list of received datagrams asks for: each nonempty datagram, cut at 4096
  bytes, once and in order, to the latest source on the other side; within an iteration the first
  socket comes first, so a datagram on the second one can already be sent to the peer it revealed.
\<close>
theorem pair_run_relays:
  assumes "pair_run p evs = (Inr p', out)"
  shows "sent out = relay (known_of p) (arrivals evs)"
  using assms
proof (induction evs arbitrary: p out)
  case (Cons ev evs)
  then obtain p1 out1 out2 where "pair_step p ev = (Inr p1, out1)" "pair_run p1 evs = (Inr p', out2)" "out = out1 @ out2"
    by (auto split: prod.splits sum.splits)
  with Cons.IH pair_step_relays show ?case
    by (metis sent_append)
qed simp

theorem pair_run_relays_witness:
  "sent [Sendto Two [7] 0, Mark One, Sendto One [8, 9] (5 :: nat), Mark Two]
    = relay (known_of \<lparr>peer1 = 0, peer2 = 0\<rparr>) (arrivals [Select_again, Ready (Some (Some ([7], 5), 1)) (Some (Some ([8, 9], 6), 2))])"
  by (rule pair_run_relays [of _ _ "\<lparr>peer1 = 5, peer2 = 6\<rparr>"])
    (simp add: pair_step_def from_one_def from_two_def)

text \<open>
  The loop ends only for a reason: with status 2 after a failed \<open>select\<close>, with status 4 after
  a failed \<open>recvfrom\<close>; interruptions and failed sends never end it.
\<close>
theorem pair_step_ends:
  "(\<exists>e out. pair_step p ev = (Inl e, out)) \<longleftrightarrow>
     ev = Select_error \<or> (\<exists>r a2. ev = Ready (Some (None, r)) a2) \<or> (\<exists>a1 r. ev = Ready a1 (Some (None, r)))"
  by (auto simp: pair_step_def from_one_def from_two_def Let_def
      split: selected.splits option.splits sum.splits prod.splits if_splits)

text \<open>
  A failed \<open>sendto\<close> is not noticed: its result is -1, and the code tests for 0, so the mark of a
  forwarded datagram is printed; a socket that could not be bound is not noticed either.
\<close>
theorem failed_calls_unnoticed:
  "snd (pair_step \<lparr>peer1 = (0 :: nat), peer2 = 0\<rparr> (Ready (Some (Some ([7], 5), - 1)) None)) = [Sendto Two [7] 0, Mark One] \<and>
   pair_main [''udppair'', ''1'', ''2''] (udp_socket 3 (- 1)) (udp_socket 4 (- 1)) = Inr (- 1, - 1)"
  by (simp add: pair_step_def from_one_def pair_main_def udp_socket_def)

end
