(* ===== verification/Bpg_Hevc.thy ===== *)
theory Bpg_Hevc
  imports Bytes
begin

text \<open>
  \<open>bpg2hevc.c\<close>: rewrites the header of a BPG picture as a NAL unit of a raw HEVC stream. The
  standard input is a list of bytes; an operation returns what is left of it. The heap is modelled
  as far as it matters: an allocation may fail, has the capacity that was asked for, and holds
  arbitrary bytes (\<open>junk\<close>); a write past the capacity ends the model with \<open>Overflow\<close>. The messages
  on the standard error are not modelled.
\<close>

section \<open>Numbers\<close>

text \<open>The loop of \<open>ue7_32\<close>; the first argument counts the iterations that are left.\<close>

fun ue7_loop :: "nat \<Rightarrow> u32 \<Rightarrow> byte list \<Rightarrow> u32 \<times> byte list" where
  "ue7_loop 0 buffer inp = (buffer, inp)"
| "ue7_loop (Suc n) buffer [] = (buffer, [])"
| "ue7_loop (Suc n) buffer (c # inp) =
     (let b = push_bit 7 buffer OR ucast (c AND 0x7F)
      in if c AND 0x80 = 0 then (b, inp) else ue7_loop n b inp)"

definition ue7_32 :: "byte list \<Rightarrow> u32 \<times> byte list" where
  "ue7_32 inp = ue7_loop 5 0 inp"

section \<open>The header as a NAL unit\<close>

text \<open>Escape codes: every pair of zero bytes is followed by a 3.\<close>

fun escape :: "byte list \<Rightarrow> byte list" where
  "escape [] = []"
| "escape [x] = [x]"
| "escape (x # y # xs) =
     (if x = 0 \<and> y = 0 then 0 # 0 # 3 # escape xs else x # escape (y # xs))"

definition nal_header :: "byte list" where
  "nal_header = [0x00, 0x00, 0x00, 0x01, push_bit 1 48, 1]"

definition msps_fields :: "u32 \<Rightarrow> u32 \<Rightarrow> byte \<Rightarrow> byte \<Rightarrow> byte list" where
  "msps_fields width height chroma_format_idc depth = chroma_format_idc # be32 width @ be32 height @ [depth]"

text \<open>The last byte cannot be zero.\<close>

definition finish :: "byte list \<Rightarrow> byte list" where
  "finish buf = (if buf = [] \<or> last buf = 0x00 then buf @ [0x80] else buf)"

datatype built = Null_write | Overflow | Built "byte list" "byte list"

text \<open>
  \<open>alloc n\<close>: \<open>malloc(n)\<close> does not return a null pointer; \<open>junk n\<close> is what the fresh memory holds. A
  negative \<open>int\<close> becomes a huge \<open>size_t\<close>. \<open>depth\<close> is \<open>bit_depth - 8\<close>. \<open>Built\<close> has the buffer and the rest of the
  input. The assertion \<open>idx == msps_len\<close> is left out: both sides are \<open>10 + len\<close>, wrapped to an \<open>int\<close> in the
  same way.
\<close>

definition build_msps ::
    "(nat \<Rightarrow> bool) \<Rightarrow> (nat \<Rightarrow> byte list) \<Rightarrow> u32 \<Rightarrow> u32 \<Rightarrow> byte \<Rightarrow> byte \<Rightarrow> byte list \<Rightarrow> built" where
  "build_msps alloc junk width height chroma_format_idc depth inp =
     (let (len, inp1) = ue7_32 inp;
          msps_len = s32 (1 + 4 + 4 + 1 + uint len);
          msps_cap = nat (msps_len mod 2 ^ 64);
          data = take (nat (uint len)) inp1;
          written = msps_fields width height chroma_format_idc depth @ data
      in if \<not> alloc msps_cap then Null_write
         else if msps_cap < length written then Overflow
         else
           let msps_buf = take (nat msps_len) (put 0 written (junk msps_cap));
               buf_len = s32 (4 + 2 + s32 (msps_len * 2));
               buf_cap = nat (buf_len mod 2 ^ 64);
               buf = finish (nal_header @ escape msps_buf)
           in if \<not> alloc buf_cap then Null_write
              else if buf_cap < length buf then Overflow
              else Built buf (drop (nat (uint len)) inp1))"

section \<open>The program\<close>

text \<open>How the program ends: with an exit status and what it wrote, or as \<open>build_msps\<close> does.\<close>

datatype bpg_outcome = Bpg_exit int "byte list" | Bpg_crash built

definition bpg_main :: "(nat \<Rightarrow> bool) \<Rightarrow> (nat \<Rightarrow> byte list) \<Rightarrow> nat \<Rightarrow> byte list \<Rightarrow> bpg_outcome" where
  "bpg_main alloc junk argc inp =
     (if argc \<noteq> 1 then Bpg_exit 1 []
      else
        let buf = put 0 (take 4 inp) [0, 0, 0, 0]; inp1 = drop 4 inp
        in if buf \<noteq> [0x42, 0x50, 0x47, 0xFB] then Bpg_exit 2 []
           else
             let buf1 = put 0 (take 2 inp1) buf; inp2 = drop 2 inp1;
                 pixfmt = drop_bit 5 (buf1 ! 0 AND 0xE0);
                 alpha1 = (buf1 ! 0 AND 0x10 \<noteq> 0);
                 depth = buf1 ! 0 AND 0x0F;
                 alpha2 = (buf1 ! 1 AND 0x04 \<noteq> 0);
                 (width, inp3) = ue7_32 inp2;
                 (height, inp4) = ue7_32 inp3;
                 (datalen, inp5) = ue7_32 inp4
             in if alpha1 \<or> alpha2 then Bpg_exit 3 []
                else (case build_msps alloc junk width height pixfmt depth inp5 of
                    Built spsbuf rest \<Rightarrow> Bpg_exit 0 (spsbuf @ [0x00, 0x00, 0x00, 0x01] @ rest)
                  | b \<Rightarrow> Bpg_crash b))"

section \<open>Reading numbers\<close>

text \<open>The encoding that is read: seven bits per byte, most significant first, bit 7 on all but the last.\<close>

fun ue7_groups :: "nat \<Rightarrow> u32 \<Rightarrow> byte list" where
  "ue7_groups 0 v = []"
| "ue7_groups (Suc n) v = (ucast (drop_bit (7 * n) v AND 0x7F) OR (if n = 0 then 0 else 0x80)) # ue7_groups n v"

definition ue7_size :: "u32 \<Rightarrow> nat" where
  "ue7_size v = (if v < 2 ^ 7 then 1 else if v < 2 ^ 14 then 2 else if v < 2 ^ 21 then 3 else if v < 2 ^ 28 then 4 else 5)"

definition ue7_encode :: "u32 \<Rightarrow> byte list" where
  "ue7_encode v = ue7_groups (ue7_size v) v"

lemma bit_0x80: "bit (0x80 :: byte) n \<longleftrightarrow> n = 7"
  using bit_push_bit_iff [of 7 "1 :: byte" n] by (auto simp: push_bit_eq_mult bit_1_iff exp_eq_zero_iff)

lemma bit_0x7F: "bit (0x7F :: 'a::len word) n \<longleftrightarrow> n < 7 \<and> n < LENGTH('a)"
proof -
  have m: "(0x7F :: 'a word) = mask 7"
    by (simp add: mask_eq_exp_minus_1)
  show ?thesis
    unfolding m by (auto simp: bit_mask_iff)
qed

lemmas bits_of_group = bit_0x80 bit_0x7F bit_simps

lemma group_flag:
  "(ucast (g AND 0x7F :: u32) OR 0x80 :: byte) AND 0x80 = 0x80"
  "(ucast (g AND 0x7F :: u32) :: byte) AND 0x80 = 0"
  by (rule bit_word_eqI; auto simp: bits_of_group simp del: bit_numeral_word_iff)+

lemma group_value:
  "(ucast ((ucast (g AND 0x7F :: u32) OR 0x80 :: byte) AND 0x7F) :: u32) = g AND 0x7F"
  "(ucast ((ucast (g AND 0x7F :: u32) :: byte) AND 0x7F) :: u32) = g AND 0x7F"
  by (rule bit_word_eqI; auto simp: bits_of_group simp del: bit_numeral_word_iff)+

lemma join_group:
  "push_bit (7 * k) (push_bit 7 b OR drop_bit (7 * k) v AND 0x7F) OR take_bit (7 * k) v
     = push_bit (7 * Suc k) b OR take_bit (7 * Suc k) (v :: u32)"
proof (rule bit_word_eqI)
  fix n assume "n < LENGTH(32)"
  then show "bit (push_bit (7 * k) (push_bit 7 b OR drop_bit (7 * k) v AND 0x7F) OR take_bit (7 * k) v) n
      = bit (push_bit (7 * Suc k) b OR take_bit (7 * Suc k) v) n"
    by (cases "n < 7 * k"; cases "n < 7 * k + 7") (auto simp: bits_of_group add.commute simp del: bit_numeral_word_iff)
qed

lemma ue7_loop_groups:
  "k < n \<Longrightarrow> ue7_loop n b (ue7_groups (Suc k) v @ rest)
     = (push_bit (7 * Suc k) b OR take_bit (7 * Suc k) v, rest)"
proof (induction k arbitrary: n b)
  case 0
  then obtain m where "n = Suc m"
    by (cases n) auto
  then show ?case
    using join_group [of 0 b v] by (simp add: group_flag group_value Let_def)
next
  case (Suc k)
  then obtain m where n: "n = Suc m" "k < m"
    by (cases n) auto
  have "ue7_loop n b (ue7_groups (Suc (Suc k)) v @ rest)
      = ue7_loop m (push_bit 7 b OR drop_bit (7 * Suc k) v AND 0x7F) (ue7_groups (Suc k) v @ rest)"
    unfolding n(1) by (simp add: group_flag group_value Let_def del: ue7_groups.simps(2)) (simp add: group_flag group_value Let_def)
  then show ?case
    using Suc.IH [OF n(2)] join_group [of "Suc k" b v] by simp
qed

lemma take_bit_eq_self_word:
  assumes "v < 2 ^ n" "n < 32"
  shows "take_bit n v = (v :: u32)"
proof -
  have "uint (2 ^ n :: u32) = 2 ^ n"
    using assms(2) by (intro uint_2p) (simp add: word_gt_0 exp_eq_zero_iff)
  then have "uint v < 2 ^ n"
    using assms(1) by (simp add: word_less_def)
  then have "uint (take_bit n v) = uint v"
    by (simp add: unsigned_take_bit_eq take_bit_int_eq_self_iff)
  then show ?thesis by (rule unsigned_word_eqI)
qed

lemma ue7_32_encode: "ue7_32 (ue7_encode v @ rest) = (v, rest)"
proof -
  obtain k where k: "ue7_size v = Suc k" "k < 5" "v < 2 ^ (7 * Suc k) \<or> k = 4"
    by (force simp: ue7_size_def split: if_splits)
  have "take_bit (7 * Suc k) v = v"
  proof (cases "k = 4")
    case True
    then show ?thesis by (intro bit_word_eqI) (simp add: bit_simps)
  next
    case False
    with k show ?thesis
      by (intro take_bit_eq_self_word) auto
  qed
  with k show ?thesis
    using ue7_loop_groups [of k 5 0 v rest] by (simp add: ue7_32_def ue7_encode_def del: ue7_groups.simps)
qed

text \<open>
  C30: \<open>ue7_32\<close> reads back every 32-bit number from its encoding in one to five groups of seven
  bits, and leaves the rest of the input.
\<close>
theorem ue7_roundtrip: "ue7_32 (ue7_encode v @ rest) = (v, rest)"
  by (rule ue7_32_encode)

section \<open>Escape codes\<close>

text \<open>The decoder of the HEVC standard drops the 3 after two zero bytes.\<close>

fun unescape :: "byte list \<Rightarrow> byte list" where
  "unescape (x # y # z # xs) =
     (if x = 0 \<and> y = 0 \<and> z = 3 then 0 # 0 # unescape xs else x # unescape (y # z # xs))"
| "unescape xs = xs"

text \<open>No two zero bytes are followed by 0, 1 or 2, which would look like a start code.\<close>

fun emulation_free :: "byte list \<Rightarrow> bool" where
  "emulation_free (x # y # z # xs) \<longleftrightarrow> \<not> (x = 0 \<and> y = 0 \<and> z < 3) \<and> emulation_free (y # z # xs)"
| "emulation_free xs \<longleftrightarrow> True"

lemma escape_Cons: "\<exists>ys. escape (x # xs) = x # ys"
  by (cases xs) auto

lemma emulation_free_Cons:
  "emulation_free ys \<Longrightarrow> \<not> (x = 0 \<and> ys \<noteq> [] \<and> hd ys = 0) \<Longrightarrow> emulation_free (x # ys)"
  by (cases ys rule: emulation_free.cases) auto

lemma emulation_free_escape: "emulation_free (escape xs)"
proof (induction xs rule: escape.induct)
  case (3 x y xs)
  obtain ys where "escape (y # xs) = y # ys"
    using escape_Cons by blast
  with 3 show ?case
    using emulation_free_Cons [of "escape (y # xs)" x] emulation_free_Cons [of "3 # escape xs" 0]
      emulation_free_Cons [of "escape xs" 3] emulation_free_Cons [of "0 # 3 # escape xs" 0]
    by (cases "x = 0 \<and> y = 0"; cases "escape xs") auto
qed auto

lemma emulation_free_snoc: "emulation_free xs \<Longrightarrow> 3 \<le> z \<Longrightarrow> emulation_free (xs @ [z])"
  by (induction xs rule: emulation_free.induct) auto

lemma unescape_Cons: "\<not> (x = 0 \<and> ys \<noteq> [] \<and> hd ys = 0) \<Longrightarrow> unescape (x # ys) = x # unescape ys"
  by (cases ys rule: unescape.cases) auto

lemma unescape_escape: "unescape (escape xs) = xs"
proof (induction xs rule: escape.induct)
  case (3 x y xs)
  obtain ys where "escape (y # xs) = y # ys"
    using escape_Cons by blast
  with 3 show ?case
    by (auto simp: unescape_Cons)
qed auto

lemma length_escape: "2 * length (escape xs) \<le> 3 * length xs"
  by (induction xs rule: escape.induct) auto

lemma length_finish: "length (finish xs) \<le> length xs + 1"
  by (simp add: finish_def)

text \<open>
  C14: the escaped header can be decoded again and never contains a start code: the decoder gives
  back the bytes that were escaped, and after the unit's own start code no two zero bytes are
  followed by 0, 1 or 2; the last byte is not zero.
\<close>
theorem escape_correct:
  "unescape (escape xs) = xs \<and> emulation_free (drop 4 (finish (nal_header @ escape xs))) \<and>
    last (finish (nal_header @ escape xs)) \<noteq> 0"
proof (intro conjI unescape_escape)
  have "emulation_free (push_bit 1 48 # 1 # escape xs)"
    by (intro emulation_free_Cons emulation_free_escape) simp_all
  then show "emulation_free (drop 4 (finish (nal_header @ escape xs)))"
    using emulation_free_snoc [of "push_bit 1 48 # 1 # escape xs" "0x80"]
    by (simp add: finish_def nal_header_def)
  show "last (finish (nal_header @ escape xs)) \<noteq> 0"
    by (auto simp: finish_def)
qed

section \<open>The header\<close>

lemma length_msps_fields [simp]: "length (msps_fields width height chroma depth) = 10"
  by (simp add: msps_fields_def net32.enc_length)

text \<open>A header whose length keeps all sizes in an \<open>int\<close> fits into both buffers.\<close>

lemma build_msps_fits:
  assumes "ue7_32 inp = (len, inp1)" "uint len \<le> 2 ^ 30 - 14" "\<And>n. alloc n" "\<And>n. length (junk n) = n"
    and written: "written = msps_fields width height chroma depth @ take (nat (uint len)) inp1"
  shows "build_msps alloc junk width height chroma depth inp =
    Built (finish (nal_header @ escape (put 0 written (junk (10 + nat (uint len))))))
      (drop (nat (uint len)) inp1)"
proof -
  define n where "n = nat (uint len)"
  let ?n = "10 + n"
  let ?msps = "put 0 written (junk ?n)"
  have "uint len = int n"
    unfolding n_def using uint_ge_0 [of len] by (rule nat_0_le [symmetric])
  with assms(2) have u: "uint len = int n" "n \<le> 1073741810"
    by simp_all
  have s: "s32 (1 + 4 + 4 + 1 + uint len) = int ?n" "s32 (int ?n * 2) = int ?n * 2"
    "s32 (4 + 2 + int ?n * 2) = int (6 + 2 * ?n)"
    using u by (simp_all add: s32_id in_s32_def)
  have cap: "nat (int ?n mod 2 ^ 64) = ?n" "nat (int (6 + 2 * ?n) mod 2 ^ 64) = 6 + 2 * ?n"
    using u by (simp_all del: of_nat_add of_nat_mult)
  have written': "written = msps_fields width height chroma depth @ take n inp1"
    by (simp add: written n_def)
  have w: "length written \<le> ?n"
    by (simp add: written n_def)
  then have len: "length ?msps = ?n"
    using assms(4) by (simp add: length_put)
  then have "length (finish (nal_header @ escape ?msps)) \<le> 6 + 2 * ?n"
    using length_finish [of "nal_header @ escape ?msps"] length_escape [of ?msps] by (simp add: nal_header_def)
  then show ?thesis
    using w len unfolding build_msps_def assms(1) prod.case Let_def s cap n_def [symmetric]
    by (simp add: assms(3) written' [symmetric] del: of_nat_add)
qed

text \<open>
  C31: for a header of less than a gigabyte no byte is written outside the two heap buffers, however
  much of it the input really holds: both buffers are allocated large enough for the fields, the
  data, the escape codes and the closing byte.
\<close>
theorem build_msps_in_bounds:
  assumes "uint (fst (ue7_32 inp)) \<le> 2 ^ 30 - 14" "\<And>n. alloc n" "\<And>n. length (junk n) = n"
  shows "\<exists>buf rest. build_msps alloc junk width height chroma depth inp = Built buf rest"
proof -
  obtain len inp1 where l: "ue7_32 inp = (len, inp1)"
    by (cases "ue7_32 inp")
  with assms(1) have "uint len \<le> 2 ^ 30 - 14"
    by simp
  from build_msps_fits [where alloc = alloc and junk = junk, OF l this assms(2,3) refl] show ?thesis
    by blast
qed

theorem build_msps_in_bounds_witness:
  "\<exists>buf rest. build_msps (\<lambda>_. True) (\<lambda>n. replicate n 7) 640 480 1 0 [2, 9, 8] = Built buf rest"
proof (rule build_msps_in_bounds)
  have "ue7_32 [2, 9, 8] = (2, [9, 8])"
    by code_simp
  then show "uint (fst (ue7_32 [2, 9, 8])) \<le> 2 ^ 30 - 14"
    by simp
qed simp_all

text \<open>
  C32: a length of \<open>2^32 - 10\<close> or more overflows the heap: the size of the first buffer is computed
  in an \<open>int\<close>, wraps around to at most 9, and the ten bytes of the fields are written to it.
\<close>
theorem build_msps_overflows:
  assumes "2 ^ 32 - 10 \<le> uint (fst (ue7_32 inp))" "\<And>n. alloc n"
  shows "build_msps alloc junk width height chroma depth inp = Overflow"
proof -
  obtain len inp1 where l: "ue7_32 inp = (len, inp1)"
    by (cases "ue7_32 inp")
  have "uint len < 2 ^ 32"
    using uint_lt2p [of len] by simp
  with assms(1) l have "s32 (10 + uint len) = 10 + uint len - 2 ^ 32" "0 \<le> 10 + uint len - 2 ^ 32"
    "10 + uint len - 2 ^ 32 < 10"
    by (simp_all add: s32_wrap)
  then show ?thesis
    using assms(2) by (simp add: build_msps_def l Let_def nat_less_iff trans_less_add1)
qed

theorem build_msps_overflows_witness:
  "build_msps (\<lambda>_. True) (\<lambda>_. []) 1 1 1 0 [0x8F, 0xFF, 0xFF, 0xFF, 0x76] = Overflow"
proof (rule build_msps_overflows)
  have "ue7_32 [0x8F, 0xFF, 0xFF, 0xFF, 0x76] = (2 ^ 32 - 10, [])"
    by code_simp
  then show "2 ^ 32 - 10 \<le> uint (fst (ue7_32 [0x8F, 0xFF, 0xFF, 0xFF, 0x76]))"
    by simp
qed simp

text \<open>
  C13: the conversion of a well-formed picture without an alpha channel: the output is the NAL unit
  with the escaped header fields and header data, a start code, and the rest of the input.
\<close>
theorem bpg_main_converts:
  assumes "b0 AND 0x10 = 0" "b1 AND 0x04 = 0" "length hdata \<le> 2 ^ 30 - 14"
    and "\<And>n. alloc n" "\<And>n. length (junk n) = n"
  shows "bpg_main alloc junk 1 ([0x42, 0x50, 0x47, 0xFB, b0, b1] @ ue7_encode width @ ue7_encode height @
      ue7_encode datalen @ ue7_encode (of_nat (length hdata)) @ hdata @ rest)
    = Bpg_exit 0 (finish (nal_header @ escape (msps_fields width height (drop_bit 5 (b0 AND 0xE0)) (b0 AND 0x0F) @ hdata))
        @ [0, 0, 0, 1] @ rest)"
proof -
  let ?n = "length hdata"
  let ?written = "msps_fields width height (drop_bit 5 (b0 AND 0xE0)) (b0 AND 0x0F) @ hdata"
  have u: "uint (of_nat ?n :: u32) = int ?n" "unat (of_nat ?n :: u32) = ?n"
    using assms(3) by (simp_all add: unsigned_of_nat take_bit_nat_eq_self)
  have "build_msps alloc junk width height (drop_bit 5 (b0 AND 0xE0)) (b0 AND 0x0F)
      (ue7_encode (of_nat ?n) @ hdata @ rest)
    = Built (finish (nal_header @ escape (put 0 ?written (junk (10 + ?n))))) rest"
    using build_msps_fits [where alloc = alloc and junk = junk and written = ?written,
        OF ue7_32_encode [of "of_nat ?n" "hdata @ rest"] _ assms(4,5)] assms(3) u by simp
  moreover have "put 0 ?written (junk (10 + ?n)) = ?written"
    using assms(5) by (simp add: put_def)
  moreover have "take (Suc (Suc n)) (x # y # xs) = x # y # take n xs" "drop (Suc (Suc n)) (x # y # xs) = drop n xs"
    for n and x y :: byte and xs
    by simp_all
  ultimately show ?thesis
    using assms(1,2) by (simp add: bpg_main_def Let_def put_def ue7_32_encode numeral_eq_Suc)
qed

theorem bpg_main_converts_witness:
  "bpg_main (\<lambda>_. True) (\<lambda>n. replicate n 5) 1 ([0x42, 0x50, 0x47, 0xFB, 0x20, 0] @ ue7_encode 640 @ ue7_encode 480 @
      ue7_encode 7 @ ue7_encode (of_nat (length [9, 0, 0, 1 :: byte])) @ [9, 0, 0, 1] @ [0xAA])
    = Bpg_exit 0 (finish (nal_header @ escape (msps_fields 640 480 (drop_bit 5 (0x20 AND 0xE0)) (0x20 AND 0x0F) @ [9, 0, 0, 1]))
        @ [0, 0, 0, 1] @ [0xAA])"
  by (rule bpg_main_converts) simp_all

end
