(* ===== verification/Lease.thy ===== *)
theory Lease
  imports Decimal
begin

text \<open>
  \<open>lease.c\<close>: sets, removes or prints a file lease, and optionally waits for the signal that runs a
  command. \<open>main\<close> is a function of its arguments and of the results of \<open>open\<close> and \<open>fcntl\<close> to the
  calls it makes, in order, and its exit status. Messages on the standard error are not modelled.
\<close>

section \<open>Model\<close>

definition F_RDLCK :: int where "F_RDLCK = 0"
definition F_WRLCK :: int where "F_WRLCK = 1"
definition F_UNLCK :: int where "F_UNLCK = 2"

definition GETMODE :: int where
  "GETMODE = (F_RDLCK OR F_WRLCK OR F_UNLCK) + 1"

datatype lease_call =
    Handle_sigio "string list"
  | Open string
  | Setlease int int
  | Getlease int
  | Print string
  | Pause

text \<open>The mode, unless it is invalid or makes no sense with a command line.\<close>

definition lease_mode :: "string \<Rightarrow> bool \<Rightarrow> int option" where
  "lease_mode mode_s has_command_line =
     (if mode_s = ''ro'' then Some F_RDLCK
      else if mode_s = ''rw'' then Some F_WRLCK
      else if mode_s = ''no'' then (if has_command_line then None else Some F_UNLCK)
      else if mode_s = ''get'' then (if has_command_line then None else Some GETMODE)
      else None)"

text \<open>The descriptor, with the call that opened it; \<open>None\<close> for an invalid number.\<close>

definition lease_fd :: "string \<Rightarrow> int \<Rightarrow> (lease_call list \<times> int) option" where
  "lease_fd filename open_ret =
     (if filename \<noteq> [] \<and> filename ! 0 = CHR ''@'' then
        (case scan_d (drop 1 filename) of None \<Rightarrow> None | Some (fd, _) \<Rightarrow> Some ([], fd))
      else Some ([Open filename], open_ret))"

definition lease_name :: "int \<Rightarrow> string" where
  "lease_name ret =
     (if ret = F_RDLCK then ''F_RDLCK\<newline>''
      else if ret = F_WRLCK then ''F_WRLCK\<newline>''
      else if ret = F_UNLCK then ''F_UNLCK\<newline>''
      else show_int ret @ ''\<newline>'')"

text \<open>The part of \<open>main\<close> from the call of \<open>fcntl\<close> on.\<close>

definition lease_apply :: "int \<Rightarrow> bool \<Rightarrow> int \<Rightarrow> int \<Rightarrow> lease_call list \<times> int" where
  "lease_apply mode has_command_line fd fcntl_ret =
     (let call = (if mode = GETMODE then Getlease fd else Setlease fd mode)
      in if fcntl_ret = - 1 then ([call], 3)
         else
           let calls = call # (if mode = GETMODE then [Print (lease_name fcntl_ret)] else [])
           in if has_command_line then (calls @ [Pause], 127) else (calls, 0))"

definition lease_main :: "string list \<Rightarrow> int \<Rightarrow> int \<Rightarrow> lease_call list \<times> int" where
  "lease_main argv open_ret fcntl_ret =
     (let argc = length argv in
      if argc < 3 \<or> argv ! 1 = ''--help'' \<or> argv ! 1 = ''-?'' then ([], 1)
      else
        let has_command_line = (argc > 4)
        in (case lease_mode (argv ! 2) has_command_line of None \<Rightarrow> ([], 1)
            | Some mode \<Rightarrow>
                if has_command_line \<and> argv ! 3 \<noteq> ''--'' then ([], 1)
                else
                  let handler = (if has_command_line then [Handle_sigio (drop 4 argv)] else [])
                  in (case lease_fd (argv ! 1) open_ret of None \<Rightarrow> (handler, 1)
                      | Some (opened, fd) \<Rightarrow>
                          if fd = - 1 then (handler @ opened, 2)
                          else (case lease_apply mode has_command_line fd fcntl_ret of
                              (calls, status) \<Rightarrow> (handler @ opened @ calls, status)))))"

text \<open>The handler: the program that is executed with its arguments, and the status if that fails.\<close>

definition sigio :: "string list \<Rightarrow> string \<times> string list \<times> int" where
  "sigio cmdline = (cmdline ! 0, cmdline, 127)"

section \<open>What a run does\<close>


lemma modes_distinct: "GETMODE = 4" "F_RDLCK = 0" "F_WRLCK = 1" "F_UNLCK = 2"
  by (simp_all add: GETMODE_def F_RDLCK_def F_WRLCK_def F_UNLCK_def)




text \<open>
  With one argument less than a command needs (\<open>lease file rw --\<close>) the program sets the lease and
  exits at once with status 0; it does not complain about the missing command.
\<close>
theorem lease_without_command:
  "lease_main [''lease'', ''q'', ''rw'', ''--''] 5 0 = ([Open ''q'', Setlease 5 F_WRLCK], 0)"
  by (simp add: lease_main_def lease_mode_def lease_fd_def lease_apply_def modes_distinct Let_def)

end
