(* ===== verification/Cgroup_Monitor.thy ===== *)
theory Cgroup_Monitor
  imports Decimal
begin

text \<open>
  \<open>cgroup_memory_pressure_monitor.c\<close>: registers an event descriptor with a control group and prints
  the counts it delivers. The results of the system calls are arguments. Messages on the standard
  error are not modelled.
\<close>

section \<open>Registration\<close>

definition monitor_path :: "string \<Rightarrow> string \<Rightarrow> string" where
  "monitor_path cgroup file = take 4095 (cgroup @ CHR ''/'' # file)"

text \<open>
  \<open>snprintf(buf, 128, "%d %d %s%n", ...)\<close>: the bytes of \<open>buf\<close> afterwards, and the length that \<open>%n\<close>
  stores, which is that of the whole text. \<open>junk\<close> is the uninitialised buffer.
\<close>

definition control_line :: "int \<Rightarrow> int \<Rightarrow> string \<Rightarrow> string \<Rightarrow> string \<times> int" where
  "control_line efd mp level junk =
     (let text = show_int efd @ '' '' @ show_int mp @ '' '' @ level;
          stored = take 127 text @ [CHR 0x00]
      in (stored @ drop (length stored) junk, int (length text)))"

text \<open>What \<open>write(cgc, buf, l)\<close> hands to the kernel; \<open>None\<close> if it reads past the end of \<open>buf\<close>.\<close>

definition control_write :: "string \<times> int \<Rightarrow> string option" where
  "control_write bl = (case bl of (buf, l) \<Rightarrow> if l \<le> int (length buf) then Some (take (nat l) buf) else None)"

section \<open>The loop\<close>

text \<open>What \<open>read\<close> on the event descriptor returned.\<close>

datatype event_read = Count u64 | End_of_file | Interrupted | Bad_read

fun monitor_loop :: "event_read list \<Rightarrow> string list \<times> int option" where
  "monitor_loop [] = ([], None)"
| "monitor_loop (r # rs) =
     (case r of
        End_of_file \<Rightarrow> ([], Some 0)
      | Interrupted \<Rightarrow> monitor_loop rs
      | Bad_read \<Rightarrow> ([], Some 6)
      | Count x \<Rightarrow> (let (out, status) = monitor_loop rs in ((show_int (sint x) @ ''\<newline>'') # out, status)))"

record monitor_env =
  efd_ret :: int
  pressure_ret :: int
  control_ret :: int
  write_ret :: int

text \<open>The exit status with nothing written, or what the loop does.\<close>

definition monitor_main :: "string list \<Rightarrow> monitor_env \<Rightarrow> event_read list \<Rightarrow> string list \<times> int option" where
  "monitor_main argv env reads =
     (if length argv \<noteq> 3 \<or> argv ! 1 = ''--help'' then ([], Some 1)
      else if efd_ret env = - 1 then ([], Some 2)
      else if pressure_ret env = - 1 then ([], Some 3)
      else if control_ret env = - 1 then ([], Some 4)
      else if write_ret env = - 1 then ([], Some 5)
      else monitor_loop reads)"

section \<open>What it prints and writes\<close>

definition ends_loop :: "event_read \<Rightarrow> bool" where
  "ends_loop r \<longleftrightarrow> r = End_of_file \<or> r = Bad_read"

definition counts :: "event_read list \<Rightarrow> u64 list" where
  "counts rs = concat (map (\<lambda>r. case r of Count x \<Rightarrow> [x] | _ \<Rightarrow> []) rs)"

text \<open>
  The monitor prints every count that was delivered before the end, once and in order, one per
  line and skipping interruptions; it stops at the first end of file with status 0, at the
  first bad read with status 6, and runs on otherwise.
\<close>
theorem monitor_prints_counts:
  "monitor_loop rs =
     (map (\<lambda>x. show_int (sint x) @ ''\<newline>'') (counts (takeWhile (\<lambda>r. \<not> ends_loop r) rs)),
      case dropWhile (\<lambda>r. \<not> ends_loop r) rs of [] \<Rightarrow> None | r # _ \<Rightarrow> Some (if r = End_of_file then 0 else 6))"
  by (induction rs) (auto simp: counts_def ends_loop_def split: event_read.splits)

text \<open>
  C40: the registration is written whole only up to 127 characters. The length that is written is
  that of the untruncated text: with 128 characters a NUL byte replaces the last one, and with more
  \<open>write\<close> reads past the end of the buffer on the stack.
\<close>
theorem control_write_overreads:
  assumes "length junk = 128" and "text = show_int efd @ '' '' @ show_int mp @ '' '' @ level"
  shows "control_write (control_line efd mp level junk) =
    (if length text \<le> 127 then Some text
     else if length text = 128 then Some (take 127 text @ [CHR 0x00]) else None)"
  using assms(1) unfolding control_line_def control_write_def assms(2) [symmetric]
  by (auto simp: Let_def min_def)

theorem control_write_overreads_witness:
  "control_write (control_line 3 4 (replicate 130 CHR ''x'') (replicate 128 CHR 0x00)) = None"
  using control_write_overreads [OF _ refl, of "replicate 128 CHR 0x00" 3 4 "replicate 130 CHR ''x''"]
  by simp

end
