(* ===== verification/Tc_Stats.thy ===== *)
theory Tc_Stats
  imports Decimal "HOL-Library.Monad_Syntax"
begin

text \<open>
  \<open>dump_tc_stats.c\<close>: prints the statistics of a network interface's queueing disciplines as
  lines of JSON. The libraries that deliver the objects and their counters are arguments: an object
  is a function from counters to 64-bit numbers.
\<close>

datatype tc_stat = PACKETS | BYTES | RATE_BPS | RATE_PPS | QLEN | BACKLOG | DROPS | REQUEUES | OVERLIMITS

definition show_u64 :: "u64 \<Rightarrow> string" where
  "show_u64 w = show_nat (unat w)"

definition callback :: "(tc_stat \<Rightarrow> u64) \<Rightarrow> string" where
  "callback stat =
     ''{'' @
     ''\"PACKETS\":'' @ show_u64 (stat PACKETS) @
     '',\"BYTES\":'' @ show_u64 (stat BYTES) @
     '',\"RATE_BPS\":'' @ show_u64 (stat RATE_BPS) @
     '',\"RATE_PPS\":'' @ show_u64 (stat RATE_PPS) @
     '',\"QLEN\":'' @ show_u64 (stat QLEN) @
     '',\"BACKLOG\":'' @ show_u64 (stat BACKLOG) @
     '',\"DROPS\":'' @ show_u64 (stat DROPS) @
     '',\"REQUEUES\":'' @ show_u64 (stat REQUEUES) @
     '',\"OVERLIMITS\":'' @ show_u64 (stat OVERLIMITS) @
     ''}\<newline>''"

text \<open>The output of the first rounds of the endless loop, or the exit status.\<close>

definition dump_main :: "nat \<Rightarrow> (tc_stat \<Rightarrow> u64) list list \<Rightarrow> int + string" where
  "dump_main argc rounds =
     (if argc \<noteq> 2 then Inl 2 else Inr (concat (map (\<lambda>qdiscs. concat (map callback qdiscs)) rounds)))"

section \<open>Reading the output as JSON\<close>

text \<open>
  A reader of the part of JSON that is needed, independent of the printer: objects whose members
  are a name in double quotes (without escapes), a colon and a natural number without leading
  zeros, separated by commas. It knows no names.
\<close>

definition read_name :: "string \<Rightarrow> (string \<times> string) option" where
  "read_name cs =
     (case cs of [] \<Rightarrow> None
      | q # r \<Rightarrow>
          if q \<noteq> CHR 0x22 then None
          else (case dropWhile (\<lambda>c. c \<noteq> CHR 0x22) r of [] \<Rightarrow> None
             | _ # r' \<Rightarrow> Some (takeWhile (\<lambda>c. c \<noteq> CHR 0x22) r, r')))"

definition read_number :: "string \<Rightarrow> (nat \<times> string) option" where
  "read_number cs =
     (let ds = takeWhile is_digit cs
      in if ds = [] \<or> (hd ds = CHR ''0'' \<and> tl ds \<noteq> []) then None
         else Some (digits_val ds, dropWhile is_digit cs))"

definition read_member :: "string \<Rightarrow> ((string \<times> nat) \<times> string) option" where
  "read_member cs = do {
     (name, r) \<leftarrow> read_name cs;
     case r of [] \<Rightarrow> None
     | c # r1 \<Rightarrow> if c \<noteq> CHR '':'' then None else do {
         (n, r2) \<leftarrow> read_number r1;
         Some ((name, n), r2)
       }
   }"

lemma read_name_length: "read_name cs = Some (n, r) \<Longrightarrow> length r < length cs"
  using length_dropWhile_le [of "\<lambda>c. c \<noteq> CHR 0x22" "tl cs"]
  by (auto simp: read_name_def split: list.splits if_splits)

lemma read_number_length: "read_number cs = Some (n, r) \<Longrightarrow> length r \<le> length cs"
  by (auto simp: read_number_def Let_def length_dropWhile_le split: if_splits)

lemma read_member_length: "read_member cs = Some (kv, r) \<Longrightarrow> length r < length cs"
  by (fastforce simp: read_member_def split: Option.bind_splits list.splits if_splits
      dest: read_name_length read_number_length)

function (sequential) read_members :: "string \<Rightarrow> ((string \<times> nat) list \<times> string) option" where
  "read_members cs =
     (case read_member cs of None \<Rightarrow> None
      | Some (kv, []) \<Rightarrow> None
      | Some (kv, c # r) \<Rightarrow>
          if c = CHR ''}'' then Some ([kv], r)
          else if c = CHR '','' then map_option (\<lambda>(kvs, q). (kv # kvs, q)) (read_members r)
          else None)"
  by pat_completeness auto

termination
  by (relation "measure length") (auto dest: read_member_length)

declare read_members.simps [simp del]

definition read_object :: "string \<Rightarrow> ((string \<times> nat) list \<times> string) option" where
  "read_object cs =
     (case cs of [] \<Rightarrow> None | c # r \<Rightarrow> if c = CHR ''{'' then read_members r else None)"

lemma read_members_length: "read_members cs = Some (kvs, r) \<Longrightarrow> length r < length cs"
proof (induction cs arbitrary: kvs r rule: read_members.induct)
  case (1 cs)
  then show ?case
    by (subst (asm) (2) read_members.simps)
      (fastforce split: option.splits list.splits if_splits dest: read_member_length)
qed

text \<open>One object per line.\<close>

function (sequential) read_lines :: "string \<Rightarrow> (string \<times> nat) list list option" where
  "read_lines [] = Some []"
| "read_lines (c # cs) =
     (case read_object (c # cs) of None \<Rightarrow> None
      | Some (kvs, []) \<Rightarrow> None
      | Some (kvs, d # r) \<Rightarrow> if d = CHR ''\<newline>'' then map_option ((#) kvs) (read_lines r) else None)"
  by pat_completeness auto

termination
  by (relation "measure length")
    (auto simp: read_object_def split: if_splits dest!: read_members_length)

subsection \<open>Reading what was printed\<close>

lemma show_nat_leading: "hd (show_nat n) = CHR ''0'' \<Longrightarrow> tl (show_nat n) = []"
proof (induction n rule: show_nat.induct)
  case (1 n)
  show ?case
  proof (cases "n < 10")
    case False
    then have "hd (show_nat n) = hd (show_nat (n div 10))"
      by (simp add: show_nat.simps [of n])
    then have "tl (show_nat (n div 10)) = []" "hd (show_nat (n div 10)) = CHR ''0''"
      using 1 False by simp_all
    then have "show_nat (n div 10) = [CHR ''0'']"
      by (metis list.collapse show_nat_not_Nil)
    then have "n div 10 = digits_val [CHR ''0'']"
      using digits_val_show_nat [of "n div 10"] by metis
    then show ?thesis
      using False by (simp add: digits_val_def digit_val_def)
  qed (simp add: show_nat.simps [of n])
qed

lemma read_number_u64: "r = [] \<or> \<not> is_digit (hd r) \<Longrightarrow> read_number (show_u64 w @ r) = Some (unat w, r)"
  using show_nat_leading [of "unat w"] takeWhile_show_nat [of r "unat w"] dropWhile_show_nat [of r "unat w"]
  by (simp add: read_number_def show_u64_def Let_def)

definition member_text :: "string \<Rightarrow> u64 \<Rightarrow> string" where
  "member_text name w = CHR 0x22 # name @ CHR 0x22 # CHR '':'' # show_u64 w"

lemma quoted:
  assumes "CHR 0x22 \<notin> set name"
  shows "takeWhile (\<lambda>c. c \<noteq> CHR 0x22) (name @ CHR 0x22 # q) = name"
    and "dropWhile (\<lambda>c. c \<noteq> CHR 0x22) (name @ CHR 0x22 # q) = CHR 0x22 # q"
  using assms by (induction name) auto

lemma read_member_text:
  assumes "CHR 0x22 \<notin> set name" "r = [] \<or> \<not> is_digit (hd r)"
  shows "read_member (member_text name w @ r) = Some ((name, unat w), r)"
  using read_number_u64 [OF assms(2)]
  by (simp add: read_member_def member_text_def read_name_def quoted [OF assms(1)])

text \<open>The members of a list, as the printer writes them after the opening brace.\<close>

fun members_text :: "(string \<times> u64) list \<Rightarrow> string" where
  "members_text [] = ''}''"
| "members_text [(k, w)] = member_text k w @ ''}''"
| "members_text ((k, w) # m) = member_text k w @ '','' @ members_text m"

lemma read_members_text:
  assumes "kws \<noteq> []" "\<And>k w. (k, w) \<in> set kws \<Longrightarrow> CHR 0x22 \<notin> set k"
  shows "read_members (members_text kws @ r) = Some (map (\<lambda>(k, w). (k, unat w)) kws, r)"
  using assms
proof (induction kws rule: members_text.induct)
  case 1
  then show ?case by simp
next
  case (2 k w)
  then have "read_member (member_text k w @ CHR ''}'' # r) = Some ((k, unat w), CHR ''}'' # r)"
    by (intro read_member_text) (auto simp: is_digit_def)
  then show ?case
    by (subst read_members.simps) simp
next
  case (3 k w kw kws)
  let ?q = "members_text (kw # kws) @ r"
  have "read_member (member_text k w @ CHR '','' # ?q) = Some ((k, unat w), CHR '','' # ?q)"
    using 3 by (intro read_member_text) (auto simp: is_digit_def)
  moreover have "read_members ?q = Some (map (\<lambda>(k, w). (k, unat w)) (kw # kws), r)"
    using 3 by auto
  ultimately show ?case
    by (subst read_members.simps) simp
qed

text \<open>The nine counters by name.\<close>

definition stat_names :: "(string \<times> tc_stat) list" where
  "stat_names = [(''PACKETS'', PACKETS), (''BYTES'', BYTES), (''RATE_BPS'', RATE_BPS),
     (''RATE_PPS'', RATE_PPS), (''QLEN'', QLEN), (''BACKLOG'', BACKLOG), (''DROPS'', DROPS),
     (''REQUEUES'', REQUEUES), (''OVERLIMITS'', OVERLIMITS)]"

lemma read_callback:
  "read_object (callback stat @ r) = Some (map (\<lambda>(k, c). (k, unat (stat c))) stat_names, CHR ''\<newline>'' # r)"
proof -
  let ?kws = "map (\<lambda>(k, c). (k, stat c)) stat_names"
  have "callback stat = CHR ''{'' # members_text ?kws @ ''\<newline>''"
    by (simp add: callback_def stat_names_def member_text_def)
  moreover have "read_members (members_text ?kws @ CHR ''\<newline>'' # r)
      = Some (map (\<lambda>(k, w). (k, unat w)) ?kws, CHR ''\<newline>'' # r)"
    by (rule read_members_text) (auto simp: stat_names_def)
  ultimately show ?thesis
    by (simp add: read_object_def case_prod_beta comp_def)
qed

lemma read_callbacks:
  "read_lines (concat (map callback stats)) = Some (map (\<lambda>stat. map (\<lambda>(k, c). (k, unat (stat c))) stat_names) stats)"
proof (induction stats)
  case (Cons stat stats)
  obtain cs where c: "callback stat = CHR ''{'' # cs"
    by (simp add: callback_def)
  with read_callback [of stat "concat (map callback stats)"] Cons show ?case
    by simp
qed simp

lemma concat_rounds: "concat (map (\<lambda>qs. concat (map f qs)) rounds) = concat (map f (concat rounds))"
  by (induction rounds) simp_all

text \<open>
  C34: everything the program prints is one JSON object per line, one for each queueing
  discipline of each round, in order, and each object has exactly the nine counters under their own
  names with their full 64-bit values.
\<close>
theorem dump_reads_back:
  assumes "dump_main argc rounds = Inr out"
  shows "read_lines out = Some (map (\<lambda>stat.
    [(''PACKETS'', unat (stat PACKETS)), (''BYTES'', unat (stat BYTES)),
     (''RATE_BPS'', unat (stat RATE_BPS)), (''RATE_PPS'', unat (stat RATE_PPS)),
     (''QLEN'', unat (stat QLEN)), (''BACKLOG'', unat (stat BACKLOG)), (''DROPS'', unat (stat DROPS)),
     (''REQUEUES'', unat (stat REQUEUES)), (''OVERLIMITS'', unat (stat OVERLIMITS))]) (concat rounds))"
proof -
  have "out = concat (map callback (concat rounds))"
    using assms by (simp add: dump_main_def concat_rounds split: if_splits)
  then show ?thesis
    by (simp add: read_callbacks stat_names_def)
qed

theorem dump_reads_back_witness:
  "\<exists>out. dump_main 2 [[\<lambda>_. 7], [], [\<lambda>c. if c = DROPS then 2 ^ 63 else 0, \<lambda>_. 1]] = Inr out \<and>
    map_option length (read_lines out) = Some 3"
proof -
  let ?rounds = "[[\<lambda>_. 7], [], [\<lambda>c. if c = DROPS then 2 ^ 63 else 0, \<lambda>_. 1]]"
  obtain out where out: "dump_main 2 ?rounds = Inr out"
    by (simp add: dump_main_def)
  from out dump_reads_back [OF this] show ?thesis
    by (intro exI [of _ out]) (simp del: read_lines.simps)
qed

end
