(* ===== verification/Mem_Tools.thy ===== *)
theory Mem_Tools
  imports Decimal
begin

text \<open>
  Three small programs: \<open>uksm_tease.c\<close> fills memory with equal pages, \<open>mempig.c\<close> fills it with
  zeros, \<open>runso.c\<close> calls a function of a library. Allocation and the dynamic loader are arguments.
\<close>

section \<open>\<open>uksm_tease.c\<close>\<close>

text \<open>The loop: \<open>memcpy(a + page_size * i, buf, page_size)\<close>.\<close>

definition fill_pages :: "nat \<Rightarrow> byte list \<Rightarrow> nat \<Rightarrow> byte list \<Rightarrow> byte list" where
  "fill_pages page_size buf n mem = foldl (\<lambda>a i. put (page_size * i) buf a) mem [0..<n]"

datatype tease_outcome = Tease_exit int | Tease_crash | Tease_sleeps "byte list"

text \<open>
  \<open>stack_ok\<close>: an array of that size fits on the stack, where it holds \<open>junk\<close>; \<open>calloc_ok\<close>: \<open>calloc\<close>
  returns memory.
\<close>

definition tease_main ::
    "string list \<Rightarrow> byte list \<Rightarrow> (nat \<Rightarrow> bool) \<Rightarrow> (nat \<Rightarrow> byte list) \<Rightarrow> (nat \<Rightarrow> nat \<Rightarrow> bool) \<Rightarrow> tease_outcome" where
  "tease_main argv inp stack_ok junk calloc_ok =
     (if length argv < 3 then Tease_exit 1
      else
        let page_size = nat (atoi (argv ! 1) mod 2 ^ 64);
            number_of_pages = atoi (argv ! 2);
            nmemb = nat (number_of_pages mod 2 ^ 64)
        in if \<not> stack_ok page_size then Tease_crash
           else
             let buf = put 0 (take page_size inp) (junk page_size)
             in if \<not> calloc_ok nmemb page_size then Tease_exit 1
                else Tease_sleeps (fill_pages page_size buf (nat number_of_pages) (replicate (nmemb * page_size) 0)))"

lemma fill_pages_prefix:
  assumes "length buf = page_size" "k \<le> n"
  shows "fill_pages page_size buf k (replicate (n * page_size) 0) =
    concat (replicate k buf) @ replicate ((n - k) * page_size) 0"
  using assms(2)
proof (induction k)
  case 0
  then show ?case by (simp add: fill_pages_def)
next
  case (Suc k)
  have len: "length (concat (replicate k buf)) = page_size * k"
    using assms(1) by (simp add: length_concat sum_list_replicate)
  have split: "(n - k) * page_size = page_size + (n - Suc k) * page_size"
    using Suc.prems by (metis Suc_diff_Suc Suc_le_lessD mult_Suc)
  have "fill_pages page_size buf (Suc k) (replicate (n * page_size) 0)
      = put (page_size * k) buf (fill_pages page_size buf k (replicate (n * page_size) 0))"
    by (simp add: fill_pages_def)
  also have "\<dots> = concat (replicate k buf) @ buf @ replicate ((n - Suc k) * page_size) 0"
    using Suc len assms(1) split by (simp add: put_def)
  also have "\<dots> = concat (replicate (Suc k) buf) @ replicate ((n - Suc k) * page_size) 0"
    by (simp add: replicate_append_same [symmetric])
  finally show ?case .
qed

text \<open>
  The memory ends up as the requested number of copies of one page, so that all of it can be
  merged, and every copy stays inside the allocation.
\<close>
theorem tease_fills:
  assumes "length argv \<ge> 3" "0 \<le> atoi (argv ! 1)" "0 \<le> atoi (argv ! 2)"
    and "\<And>n. stack_ok n" "\<And>n. length (junk n) = n" "\<And>m n. calloc_ok m n"
  shows "\<exists>page. length page = nat (atoi (argv ! 1)) \<and>
    tease_main argv inp stack_ok junk calloc_ok = Tease_sleeps (concat (replicate (nat (atoi (argv ! 2))) page))"
proof -
  have "in_s32 (atoi cs)" for cs
    by (auto simp: atoi_def scan_d_def s32_range split: option.splits)
  then have "in_s32 (atoi (argv ! 1))" "in_s32 (atoi (argv ! 2))"
    by blast+
  then have r: "atoi (argv ! 1) mod 2 ^ 64 = atoi (argv ! 1)" "atoi (argv ! 2) mod 2 ^ 64 = atoi (argv ! 2)"
    using assms(2,3) by (simp_all add: in_s32_def)
  let ?p = "nat (atoi (argv ! 1))" and ?n = "nat (atoi (argv ! 2))"
  let ?page = "put 0 (take ?p inp) (junk ?p)"
  have l: "length ?page = ?p"
    using assms(5) by (simp add: length_put)
  then have "tease_main argv inp stack_ok junk calloc_ok = Tease_sleeps (concat (replicate ?n ?page))"
    using assms(1,4,6) r fill_pages_prefix [OF l, of ?n ?n] by (simp add: tease_main_def Let_def)
  with l show ?thesis by blast
qed

theorem tease_fills_witness:
  "\<exists>page. length page = nat (atoi ''2'') \<and>
    tease_main [''uksm_tease'', ''2'', ''3''] [7, 8, 9] (\<lambda>_. True) (\<lambda>n. replicate n 1) (\<lambda>_ _. True)
      = Tease_sleeps (concat (replicate (nat (atoi ''3'')) page))"
proof -
  have "0 \<le> atoi ''2''" "0 \<le> atoi ''3''"
    by code_simp+
  then show ?thesis
    using tease_fills [of "[''uksm_tease'', ''2'', ''3'']" "\<lambda>_. True" "\<lambda>n. replicate n 1" "\<lambda>_ _. True"] by simp
qed

section \<open>\<open>mempig.c\<close>\<close>

text \<open>Which file gets which text, by which of the two files can be opened.\<close>

definition mempig_setup :: "bool \<Rightarrow> bool \<Rightarrow> (string \<times> string) list" where
  "mempig_setup oom_score_adj oom_adj =
     (if oom_score_adj then [(''/proc/self/oom_score_adj'', ''1000\<newline>'')]
      else if oom_adj then [(''/proc/self/oom_adj'', ''15\<newline>'')]
      else [])"

text \<open>The bytes that have been zeroed; \<open>None\<close> is a crash on a null pointer from \<open>malloc\<close>.\<close>

fun mempig_loop :: "bool list \<Rightarrow> nat option" where
  "mempig_loop [] = Some 0"
| "mempig_loop (malloc_ok # rest) =
     (if malloc_ok then map_option (\<lambda>n. 655360 + n) (mempig_loop rest) else None)"

lemma mempig_grows: "mempig_loop ms = (if list_all (\<lambda>b. b) ms then Some (655360 * length ms) else None)"
  by (induction ms) auto

section \<open>\<open>runso.c\<close>\<close>

definition runso_usage :: string where
  "runso_usage = ''Usage: runso ./libsomelibrary.so main <args>\<newline>''"

text \<open>It exits with a status and a text on the standard error, or calls the symbol.\<close>

datatype runso_outcome = Runso_exit int string | Runso_calls string string "string list"

text \<open>\<open>dl_err\<close> and \<open>sym_err\<close> are the errors of \<open>dlopen\<close> and \<open>dlsym\<close>, if they fail.\<close>

definition runso_main :: "string list \<Rightarrow> string option \<Rightarrow> string option \<Rightarrow> runso_outcome" where
  "runso_main argv dl_err sym_err =
     (if length argv < 3 then Runso_exit 1 (take (63 - 18) runso_usage)
      else (case dl_err of Some e \<Rightarrow> Runso_exit 2 (e @ ''\<newline>'')
            | None \<Rightarrow>
                (case sym_err of Some e \<Rightarrow> Runso_exit 3 (e @ ''\<newline>'')
                 | None \<Rightarrow> Runso_calls (argv ! 1) (argv ! 2) (drop 2 argv))))"

text \<open>The length of the usage text that is written is right, and the callee sees its own name first.\<close>

lemma runso_usage_whole: "length runso_usage = 63 - 18"
  by (simp add: runso_usage_def)

lemma runso_shifts_argv:
  "runso_main argv dl_err sym_err = Runso_calls lib symbol args \<Longrightarrow> args ! 0 = symbol \<and> length args = length argv - 2"
  by (auto simp: runso_main_def split: if_splits option.splits)

end
