(* ===== verification/Spec2Isabelle.thy ===== *)
theory Spec2Isabelle
  imports Ts_Main Ts_Network Fstest_Reliable Nat_Timeout File_Pecker Udp_Pair Bpg_Hevc Lease Cgroup_Monitor
    Tc_Stats Mem_Tools
begin

text \<open>
  Verification of \<open>vi_tools\<close>, a collection of small command line programs in C and C++.

  Every program is one file under \<open>src/\<close>; only \<open>udp_ts_seq_reply.cpp\<close> shares code with another
  file (\<open>timing_mach.h\<close> and \<open>timing_mach.c\<close>). The programs talk to the kernel, and some to a copy
  of themselves over the network. A definition models a function, a loop or a loop body of the
  source, under the source's name where it is free. System calls, libraries outside the repository and
  uninitialised memory are arguments of the definitions. Errors, traps and loops that may not end
  are values: exit codes, constructors such as \<open>Crash\<close> and \<open>Sigfpe\<close>, and \<open>option\<close> for
  loops defined by \<open>partial_function\<close>, which are proved to return where they do. No fuel is used. Endless
  server loops are folded over the list of their inputs, so that a theorem about the fold holds
  for every prefix of an endless run.

  Shared theories:
  \<^item> \<open>Prelude\<close>: integer types of an LP64 little endian host, conversions \<open>s32\<close> and \<open>s64\<close> that wrap
    around, \<open>put\<close> for \<open>memcpy\<close>, and the collections \<open>width_simps\<close>, \<open>codec_simps\<close>, \<open>buffer_simps\<close>.
  \<^item> \<open>Bytes\<close>: byte order. The locales \<open>field_codec\<close> and \<open>exact_codec\<close> state what a field encoding
    promises, interpreted for 16 and 32 bits in network order and for 32 bits of the host.
  \<^item> \<open>Decimal\<close>: the parts of \<open>printf\<close>, \<open>scanf\<close> and \<open>atoi\<close> that are used.

  \<open>udp_ts_seq_reply.cpp\<close>, with \<open>timing_mach.h\<close> and \<open>timing_mach.c\<close>:
  \<^item> \<open>Timespec\<close>: time arithmetic, the Mach clock emulation and the interval timer. \<open>nanos\<close> abstracts a
    time to an integer; locale \<open>ticker\<close> is the law of a timer that does not drift.
  \<^item> \<open>Seq_Server\<close>: \<open>serve1\<close> of the server on its two maps, the reply byte by byte after any
    history, and the invariant of the maps.
  \<^item> \<open>Ts_Probe\<close>: the sending child, its packets and its pacing (a second interpretation of
    \<open>ticker\<close>).
  \<^item> \<open>Ts_Measure\<close>: the receiving loop, its parser and the lines it prints.
  \<^item> \<open>Ts_Session\<close>: the three parts composed over a network that loses packets.
  \<^item> \<open>Ts_Network\<close>: the same parts as a transition system (\<open>net_step\<close>, \<open>net_reach\<close>) over a network that
    also delays, reorders and duplicates, among other clients; one invariant per part, kept by
    every step, gives what each printed report says.
  \<^item> \<open>Ts_Main\<close>: command line, exit codes, and what the checks of \<open>main\<close> give the sender.

  \<open>fstest.c\<close>:
  \<^item> \<open>Xor_Hash\<close>: the nine checksums; locale \<open>toggle_hash\<close> states that updates commute and cancel.
  \<^item> \<open>File_Ops\<close>: \<open>safe_fileop\<close> over any transfer function. The locales \<open>fileop\<close>, \<open>pread_op\<close>,
    \<open>pwrite_op\<close> and \<open>random_source\<close> state the documented behaviour of the calls, \<open>pwrite_full\<close> adds that
    a write never transfers nothing, which holds for regular files and is only used from
    \<open>Fstest_Correct\<close> on; \<open>disk\<close> is a world with an arbitrary finite schedule of faults that satisfies them.
  \<^item> \<open>Fstest\<close>: blocks, chains, reading the whole file, arguments and \<open>main\<close>.
  \<^item> \<open>Fstest_Correct\<close>: locale \<open>fs_kernel\<close>, under which the program always returns, keeps its checksums equal
    to those of the file, raises a false alarm only after an error in its first pass, and detects changes;
    interpreted for \<open>disk\<close>.
  \<^item> \<open>Fstest_Reliable\<close>: locale \<open>reliable_kernel\<close> adds that no call fails for good; then the program ends
    with status 0. Interpreted for the disk without hard errors.

  The other programs:
  \<^item> \<open>Nat_Timeout\<close> (\<open>udptimeoutchecker.c\<close>): server, attempt, search, median and \<open>main\<close>. The search is
    proved to end on every network; locale \<open>idle_threshold\<close> gives its accuracy, interpreted for prober and
    server composed with a NAT.
  \<^item> \<open>File_Pecker\<close> (\<open>udpfilepecker.c\<close>), \<open>Udp_Pair\<close> (\<open>udppair.c\<close>, with a refinement to a relay),
    \<open>Bpg_Hevc\<close> (\<open>bpg2hevc.c\<close>, with its heap buffers), \<open>Lease\<close> (\<open>lease.c\<close>), \<open>Cgroup_Monitor\<close>
    (\<open>cgroup_memory_pressure_monitor.c\<close>), \<open>Tc_Stats\<close> (\<open>dump_tc_stats.c\<close>, with a JSON reader), \<open>Mem_Tools\<close>
    (\<open>uksm_tease.c\<close>, \<open>mempig.c\<close>, \<open>runso.c\<close>).

  Bounds: file sizes and positions of \<open>fstest\<close> stay below \<open>2^62\<close> and its block size below \<open>2^31\<close>
  (\<open>params_ok\<close>), so that no position overflows. Times are compared at distances that fit 63 bits of
  nanoseconds where a theorem says so.

  Not modelled: column widths, a failing \<open>malloc\<close> of \<open>fstest\<close>, messages on the standard error, progress messages and the SETTINGS line, the conversions of \<open>timing_mach.h\<close> to and
  from \<open>double\<close>, \<open>mlockall\<close>, \<open>nice\<close> and the waiting before high rates (no effect on the
  modelled state), preprocessor branches that only include headers, and the shell scripts and
  the Makefile.
\<close>

end
